theory Spec2Isabelle
  imports Main "HOL-Library.Word" "HOL-Library.Sublist"
begin

unbundle bit_operations_syntax

section \<open>Debug flags (tracer/opencl/pipeline.go, lines 17-30)\<close>

text \<open>
  \<^verbatim>\<open>type DebugFlag uint16\<close>. The constant block gives \<^verbatim>\<open>NoDebug\<close> the value 0 at
  \<^verbatim>\<open>iota = 0\<close>; the second line is \<^verbatim>\<open>1 << iota\<close> at \<^verbatim>\<open>iota = 1\<close>, and every later line
  repeats that expression with the next value of \<^verbatim>\<open>iota\<close>.
\<close>

type_synonym DebugFlag = "16 word"

definition NoDebug :: DebugFlag where
  "NoDebug = 0"

definition PrimaryRayIntersectionDepth :: DebugFlag where
  "PrimaryRayIntersectionDepth = push_bit (1::nat) 1"

definition PrimaryRayIntersectionNormals :: DebugFlag where
  "PrimaryRayIntersectionNormals = push_bit (2::nat) 1"

definition AllEmissiveSamples :: DebugFlag where
  "AllEmissiveSamples = push_bit (3::nat) 1"

definition VisibleEmissiveSamples :: DebugFlag where
  "VisibleEmissiveSamples = push_bit (4::nat) 1"

definition OccludedEmissiveSamples :: DebugFlag where
  "OccludedEmissiveSamples = push_bit (5::nat) 1"

definition Throughput :: DebugFlag where
  "Throughput = push_bit (6::nat) 1"

definition Accumulator :: DebugFlag where
  "Accumulator = push_bit (7::nat) 1"

definition FrameBuffer :: DebugFlag where
  "FrameBuffer = push_bit (8::nat) 1"

text \<open>The mask test the code writes as \<^verbatim>\<open>debugFlags&X == X\<close>.\<close>

definition hasFlag :: "DebugFlag \<Rightarrow> DebugFlag \<Rightarrow> bool" where
  "hasFlag debugFlags x \<longleftrightarrow> debugFlags AND x = x"

text \<open>The named flags in declaration order.\<close>

definition namedFlags :: "DebugFlag list" where
  "namedFlags = [PrimaryRayIntersectionDepth, PrimaryRayIntersectionNormals,
     AllEmissiveSamples, VisibleEmissiveSamples, OccludedEmissiveSamples,
     Throughput, Accumulator, FrameBuffer]"

text \<open>No two masks of a list share a bit.\<close>

fun disjointMasks :: "DebugFlag list \<Rightarrow> bool" where
  "disjointMasks [] = True"
| "disjointMasks (x # xs) = (list_all (\<lambda>y. x AND y = 0) xs \<and> disjointMasks xs)"

section \<open>Data consumed by the integrator\<close>

text \<open>A Go \<^verbatim>\<open>error\<close> value is modelled by its message; \<^verbatim>\<open>nil\<close> is \<open>None\<close>.\<close>

type_synonym error = string

text \<open>
  The fields of \<^verbatim>\<open>tracer.BlockRequest\<close>. The type is declared in package \<^verbatim>\<open>tracer\<close>; the
  integrator uses \<^verbatim>\<open>FrameW\<close>, \<^verbatim>\<open>FrameH\<close>, \<^verbatim>\<open>BlockH\<close> and \<^verbatim>\<open>NumBounces\<close> as \<^verbatim>\<open>uint32\<close>
  (it passes the first two for \<^verbatim>\<open>uint32\<close> parameters, multiplies two of them and compares
  the last with its \<^verbatim>\<open>uint32\<close> counter), and the others are taken to be the same.
\<close>

record BlockRequest =
  FrameW :: "32 word"
  FrameH :: "32 word"
  BlockY :: "32 word"
  BlockH :: "32 word"
  SamplesPerPixel :: "32 word"
  NumBounces :: "32 word"
  MinBouncesForRR :: "32 word"

text \<open>
  \<^verbatim>\<open>tr.device.Type\<close>: the integrator only compares it with \<^verbatim>\<open>device.GpuDevice\<close>.
\<close>

datatype DeviceType = CpuDevice | GpuDevice | OtherDevice

text \<open>
  What the integrator reads of the tracer: the device type, the length of
  \<^verbatim>\<open>tr.sceneData.EmissivePrimitives\<close> and \<^verbatim>\<open>tr.sceneData.SceneDiffuseMatIndex\<close>, a signed
  integer whose sentinel value is -1.
\<close>

record Tracer =
  deviceType :: DeviceType
  lenEmissivePrimitives :: nat
  SceneDiffuseMatIndex :: int

text \<open>
  The operations the integrator and the buffer dump invoke on their collaborators, with the
  arguments the code passes: the methods of \<^verbatim>\<open>tr.resources\<close>, and for the buffer dump
  \<^verbatim>\<open>os.Create\<close>, the read-back of the debug output buffer into an image of the frame's size,
  \<^verbatim>\<open>png.Encode\<close> and the deferred \<^verbatim>\<open>f.Close\<close>.
\<close>

datatype call =
    RayPacketIntersectionQuery "32 word" int
  | RayIntersectionQuery "32 word" int
  | RayIntersectionTest "32 word" int
  | ShadePrimaryRayMisses "32 word" "32 word" int
  | ShadeIndirectRayMisses "32 word" "32 word" int
  | ShadeHits "32 word" "32 word" "32 word" "32 word" "32 word" int
  | AccumulateEmissiveSamples "32 word" int
  | DebugRayIntersectionDepth BlockRequest "32 word"
  | DebugRayIntersectionNormals BlockRequest "32 word"
  | DebugThroughput BlockRequest
  | DebugEmissiveSamples BlockRequest nat nat
  | DebugAccumulator BlockRequest
  | OsCreate string
  | DebugOutputReadData "32 word" "32 word"
  | PngEncode string
  | FileClose string

text \<open>One entry of the observed trace: the call and the error it returned.\<close>

type_synonym entry = "call \<times> error option"

text \<open>
  The collaborators: \<open>dev\<close> answers a call in a state of the outside world with an error or
  \<^verbatim>\<open>nil\<close> and the next state; \<open>clock\<close> is the reading of \<^verbatim>\<open>time.Now\<close> in a state;
  \<open>seeds k\<close> is the value of the \<open>k\<close>-th \<^verbatim>\<open>rand.Uint32()\<close> of a run (counted from 0).
\<close>

record 'w host =
  dev :: "call \<Rightarrow> 'w \<Rightarrow> error option \<times> 'w"
  clock :: "'w \<Rightarrow> int"
  seeds :: "nat \<Rightarrow> 32 word"

text \<open>
  The state a run of the integrator threads: the outside world, the local variable
  \<^verbatim>\<open>activeRayBuf\<close>, the number of random draws made so far, and the history variable \<open>swaps\<close>
  counting the executions of \<^verbatim>\<open>activeRayBuf = 1 - activeRayBuf\<close> (line 204).
\<close>

record 'w istate =
  world :: 'w
  activeRayBuf :: "32 word"
  draws :: nat
  swaps :: nat

text \<open>
  How a piece of the code stops the function it is part of: by returning an error, or by a
  panic (with its message), which no code of the pipeline recovers from.
\<close>

datatype ending = Returned error | Panicked string

text \<open>
  A step of the integrator: how it ends the run (\<open>None\<close> to go on), the next state and the
  calls it made, in order.
\<close>

type_synonym 'w stage = "'w istate \<Rightarrow> ending option \<times> 'w istate \<times> entry list"

text \<open>A call of a collaborator: its error, the next state and the entry of the trace.\<close>

definition perform ::
  "'w host \<Rightarrow> call \<Rightarrow> 'w istate \<Rightarrow> error option \<times> 'w istate \<times> entry list" where
  "perform h c s = (case dev h c (world s) of (err, w') \<Rightarrow> (err, s\<lparr>world := w'\<rparr>, [(c, err)]))"

text \<open>\<^verbatim>\<open>_, err = call; if err != nil { return ..., err }\<close>\<close>

definition invoke :: "'w host \<Rightarrow> call \<Rightarrow> 'w stage" where
  "invoke h c s = (case perform h c s of (err, s', l) \<Rightarrow> (map_option Returned err, s', l))"

text \<open>\<^verbatim>\<open>f; if err != nil { return }; g\<close>\<close>

definition andThen :: "'w stage \<Rightarrow> 'w stage \<Rightarrow> 'w stage" where
  "andThen f g s =
     (case f s of
        (Some e, s', l) \<Rightarrow> (Some e, s', l)
      | (None, s', l) \<Rightarrow> (case g s' of (r, s'', l') \<Rightarrow> (r, s'', l @ l')))"

definition skip :: "'w stage" where
  "skip s = (None, s, [])"

section \<open>dumpDebugBuffer (lines 259-276)\<close>

text \<open>
  \<^verbatim>\<open>image.NewRGBA(image.Rect(0, 0, int(frameW), int(frameH)))\<close> (line 269) computes the
  length of the pixel buffer, 4 bytes for each of \<^verbatim>\<open>frameW * frameH\<close> pixels, and panics
  with the message below when that length does not fit a (64-bit) \<^verbatim>\<open>int\<close>. Running out of
  memory for a length that fits is not modelled.
\<close>

definition imageTooLarge :: "32 word \<Rightarrow> 32 word \<Rightarrow> bool" where
  "imageTooLarge frameW frameH \<longleftrightarrow> 2 ^ 63 \<le> 4 * uint frameW * uint frameH"

definition newRGBA :: "32 word \<Rightarrow> 32 word \<Rightarrow> 'w stage" where
  "newRGBA frameW frameH s =
     (if imageTooLarge frameW frameH
      then (Some (Panicked ''image: NewRGBA Rectangle has huge or negative dimensions''), s, [])
      else (None, s, []))"

text \<open>
  The first parameter is the error of the debug kernel call that filled the buffer. After
  \<^verbatim>\<open>os.Create\<close> has succeeded, the deferred \<^verbatim>\<open>f.Close()\<close> runs on every way out, a panic
  included, and its result is dropped.
\<close>

definition dumpDebugBuffer ::
  "'w host \<Rightarrow> error option \<Rightarrow> 32 word \<Rightarrow> 32 word \<Rightarrow> string \<Rightarrow> 'w stage" where
  "dumpDebugBuffer h debugKernelError frameW frameH imgFile s =
     (case debugKernelError of
        Some e \<Rightarrow> (Some (Returned e), s, [])
      | None \<Rightarrow>
         (case invoke h (OsCreate imgFile) s of
            (Some e, s1, l1) \<Rightarrow> (Some e, s1, l1)
          | (None, s1, l1) \<Rightarrow>
             (case andThen (newRGBA frameW frameH)
                    (andThen (invoke h (DebugOutputReadData frameW frameH))
                             (invoke h (PngEncode imgFile))) s1 of
                (r, s2, l2) \<Rightarrow>
                  (case invoke h (FileClose imgFile) s2 of
                     (_, s3, l3) \<Rightarrow> (r, s3, l1 @ l2 @ l3)))))"

section \<open>MonteCarloIntegrator (lines 94-213)\<close>

text \<open>
  \<^verbatim>\<open>numPixels := int(blockReq.FrameW * blockReq.BlockH)\<close>: the product is taken in
  \<^verbatim>\<open>uint32\<close> and read as a 64-bit \<^verbatim>\<open>int\<close>.
\<close>

definition numPixels :: "BlockRequest \<Rightarrow> int" where
  "numPixels blockReq = uint (FrameW blockReq * BlockH blockReq)"

text \<open>\<^verbatim>\<open>numEmissives := uint32(len(tr.sceneData.EmissivePrimitives))\<close>\<close>

definition numEmissives :: "Tracer \<Rightarrow> 32 word" where
  "numEmissives tr = word_of_nat (lenEmissivePrimitives tr)"

text \<open>\<^verbatim>\<open>fmt.Sprintf("%03d", n)\<close> for an unsigned \<open>n\<close>: decimal, padded with zeros to three digits.\<close>

fun decimal :: "nat \<Rightarrow> string" where
  "decimal n =
     (if n < 10 then [char_of (48 + n)]
      else decimal (n div 10) @ [char_of (48 + n mod 10)])"

declare decimal.simps [simp del]

definition sprintf03d :: "nat \<Rightarrow> string" where
  "sprintf03d n = replicate (3 - length (decimal n)) (CHR ''0'') @ decimal n"

definition whenFlag :: "bool \<Rightarrow> 'w stage \<Rightarrow> 'w stage" where
  "whenFlag b f = (if b then f else skip)"

text \<open>
  The body of each \<^verbatim>\<open>if debugFlags&X == X\<close> block: the debug kernel call, then
  \<^verbatim>\<open>dumpDebugBuffer\<close> on its error and the frame's size; the block returns when the dump
  gives an error, and a panic of the dump goes through it.
\<close>

definition debugCapture :: "'w host \<Rightarrow> BlockRequest \<Rightarrow> call \<Rightarrow> string \<Rightarrow> 'w stage" where
  "debugCapture h blockReq debugKernelCall imgFile s =
     (case perform h debugKernelCall s of
        (err, s1, l1) \<Rightarrow>
          (case dumpDebugBuffer h err (FrameW blockReq) (FrameH blockReq) imgFile s1 of
             (r', s2, l2) \<Rightarrow> (r', s2, l1 @ l2)))"

text \<open>Lines 107-114.\<close>

definition primaryIntersection :: "'w host \<Rightarrow> Tracer \<Rightarrow> BlockRequest \<Rightarrow> 'w stage" where
  "primaryIntersection h tr blockReq s =
     (if deviceType tr = GpuDevice
      then invoke h (RayPacketIntersectionQuery (activeRayBuf s) (numPixels blockReq)) s
      else invoke h (RayIntersectionQuery (activeRayBuf s) (numPixels blockReq)) s)"

text \<open>Lines 134-143.\<close>

definition shadeMisses :: "'w host \<Rightarrow> Tracer \<Rightarrow> BlockRequest \<Rightarrow> 32 word \<Rightarrow> 'w stage" where
  "shadeMisses h tr blockReq bounce s =
     (if SceneDiffuseMatIndex tr \<noteq> - 1 then
        (if bounce = 0
         then invoke h (ShadePrimaryRayMisses (word_of_int (SceneDiffuseMatIndex tr))
                          (activeRayBuf s) (numPixels blockReq)) s
         else invoke h (ShadeIndirectRayMisses (word_of_int (SceneDiffuseMatIndex tr))
                          (activeRayBuf s) (numPixels blockReq)) s)
      else skip s)"

text \<open>Lines 146-149; the seed is the next draw of \<^verbatim>\<open>rand.Uint32()\<close>.\<close>

definition shadeHits :: "'w host \<Rightarrow> Tracer \<Rightarrow> BlockRequest \<Rightarrow> 32 word \<Rightarrow> 'w stage" where
  "shadeHits h tr blockReq bounce s =
     invoke h (ShadeHits bounce (MinBouncesForRR blockReq) (seeds h (draws s))
                 (numEmissives tr) (activeRayBuf s) (numPixels blockReq))
       (s\<lparr>draws := Suc (draws s)\<rparr>)"

text \<open>Lines 203-209.\<close>

definition swapBuffers :: "'w host \<Rightarrow> BlockRequest \<Rightarrow> 32 word \<Rightarrow> 'w stage" where
  "swapBuffers h blockReq bounce s =
     (if bounce + 1 < NumBounces blockReq then
        invoke h (RayIntersectionQuery (1 - activeRayBuf s) (numPixels blockReq))
          (s\<lparr>activeRayBuf := 1 - activeRayBuf s, swaps := Suc (swaps s)\<rparr>)
      else skip s)"

text \<open>The file name \<^verbatim>\<open>fmt.Sprintf("debug-<what>-%03d.png", bounce)\<close>.\<close>

definition bounceFile :: "string \<Rightarrow> 32 word \<Rightarrow> string" where
  "bounceFile what bounce = ''debug-'' @ what @ ''-'' @ sprintf03d (unat bounce) @ ''.png''"

text \<open>One iteration of the loop, lines 133-209.\<close>

definition bounceBody ::
  "'w host \<Rightarrow> DebugFlag \<Rightarrow> Tracer \<Rightarrow> BlockRequest \<Rightarrow> 32 word \<Rightarrow> 'w stage" where
  "bounceBody h debugFlags tr blockReq bounce =
     andThen (shadeMisses h tr blockReq bounce)
    (andThen (shadeHits h tr blockReq bounce)
    (andThen (whenFlag (hasFlag debugFlags Throughput)
                (debugCapture h blockReq (DebugThroughput blockReq)
                   (bounceFile ''throughput'' bounce)))
    (andThen (invoke h (RayIntersectionTest 2 (numPixels blockReq)))
    (andThen (invoke h (AccumulateEmissiveSamples 2 (numPixels blockReq)))
    (andThen (whenFlag (hasFlag debugFlags AllEmissiveSamples)
                (debugCapture h blockReq (DebugEmissiveSamples blockReq 0 0)
                   (bounceFile ''emissive-all'' bounce)))
    (andThen (whenFlag (hasFlag debugFlags VisibleEmissiveSamples)
                (debugCapture h blockReq (DebugEmissiveSamples blockReq 1 0)
                   (bounceFile ''emissive-vis'' bounce)))
    (andThen (whenFlag (hasFlag debugFlags OccludedEmissiveSamples)
                (debugCapture h blockReq (DebugEmissiveSamples blockReq 0 1)
                   (bounceFile ''emissive-occ'' bounce)))
    (andThen (whenFlag (hasFlag debugFlags Accumulator)
                (debugCapture h blockReq (DebugAccumulator blockReq)
                   (bounceFile ''accumulator'' bounce)))
             (swapBuffers h blockReq bounce)))))))))"

text \<open>
  \<^verbatim>\<open>for bounce = 0; bounce < blockReq.NumBounces; bounce++\<close>, entered at any value of the
  counter. An iteration that returns an error ends the loop.
\<close>

function bounceLoop ::
  "'w host \<Rightarrow> DebugFlag \<Rightarrow> Tracer \<Rightarrow> BlockRequest \<Rightarrow> 32 word \<Rightarrow> 'w stage" where
  "bounceLoop h debugFlags tr blockReq bounce s =
     (if bounce < NumBounces blockReq then
        (case bounceBody h debugFlags tr blockReq bounce s of
           (Some e, s', l) \<Rightarrow> (Some e, s', l)
         | (None, s', l) \<Rightarrow>
             (case bounceLoop h debugFlags tr blockReq (bounce + 1) s' of
                (r, s'', l') \<Rightarrow> (r, s'', l @ l')))
      else (None, s, []))"
  by pat_completeness auto
termination
proof (relation "measure (\<lambda>(h, debugFlags, tr, blockReq, bounce, s).
                    unat (NumBounces blockReq) - unat bounce)")
  show "wf (measure (\<lambda>(h :: 'w host, debugFlags :: DebugFlag, tr :: Tracer,
                       blockReq, bounce :: 32 word, s :: 'w istate).
                    unat (NumBounces blockReq) - unat bounce))"
    by simp
next
  fix h :: "'w host" and debugFlags :: DebugFlag and tr :: Tracer and blockReq
    and bounce :: "32 word" and s :: "'w istate" and x xa y xb ya
  assume lt: "bounce < NumBounces blockReq"
  then have below: "unat bounce < unat (NumBounces blockReq)"
    by (simp add: word_less_nat_alt)
  moreover have "unat (NumBounces blockReq) < 2 ^ 32"
    using unsigned_less [of "NumBounces blockReq", where ?'a = nat] by simp
  ultimately have "(unat bounce + 1) mod 2 ^ 32 = unat bounce + 1"
    by simp
  then have "unat (bounce + 1) = Suc (unat bounce)"
    by (simp add: unat_word_ariths)
  with below show "((h, debugFlags, tr, blockReq, bounce + 1, ya),
                    (h, debugFlags, tr, blockReq, bounce, s))
       \<in> measure (\<lambda>(h, debugFlags, tr, blockReq, bounce, s).
                    unat (NumBounces blockReq) - unat bounce)"
    by simp
qed

declare bounceLoop.simps [simp del]

text \<open>Lines 102-211 after \<^verbatim>\<open>start := time.Now()\<close>: everything up to the final return.\<close>

definition integratorStages ::
  "'w host \<Rightarrow> DebugFlag \<Rightarrow> Tracer \<Rightarrow> BlockRequest \<Rightarrow> 'w stage" where
  "integratorStages h debugFlags tr blockReq =
     andThen (primaryIntersection h tr blockReq)
    (andThen (whenFlag (hasFlag debugFlags PrimaryRayIntersectionDepth)
                (\<lambda>s. debugCapture h blockReq
                        (DebugRayIntersectionDepth blockReq (activeRayBuf s))
                        ''debug-primary-intersection-depth.png'' s))
    (andThen (whenFlag (hasFlag debugFlags PrimaryRayIntersectionNormals)
                (\<lambda>s. debugCapture h blockReq
                        (DebugRayIntersectionNormals blockReq (activeRayBuf s))
                        ''debug-primary-intersection-normals.png'' s))
             (bounceLoop h debugFlags tr blockReq 0)))"

text \<open>
  What a run of the stage gives: how it ended (\<open>None\<close> when it returned \<^verbatim>\<open>nil\<close>,
  \<open>Returned e\<close> when it returned the error \<open>e\<close>, \<open>Panicked\<close> when it did not return), the
  duration \<^verbatim>\<open>time.Since(start)\<close> it returns (a run that panics returns none, the field is
  then the time to the panic), and for the statements below the state it ends in and the
  calls it made.
\<close>

record 'w outcome =
  elapsed :: int
  failure :: "ending option"
  final :: "'w istate"
  trace :: "entry list"

definition MonteCarloIntegrator ::
  "'w host \<Rightarrow> DebugFlag \<Rightarrow> Tracer \<Rightarrow> BlockRequest \<Rightarrow> 'w \<Rightarrow> 'w outcome" where
  "MonteCarloIntegrator h debugFlags tr blockReq w =
     (case integratorStages h debugFlags tr blockReq
             \<lparr>world = w, activeRayBuf = 0, draws = 0, swaps = 0\<rparr> of
        (r, s', l) \<Rightarrow>
          \<lparr>elapsed = clock h (world s') - clock h w, failure = r, final = s', trace = l\<rparr>)"

section \<open>readCounter (lines 278-282)\<close>

text \<open>
  \<^verbatim>\<open>out := make([]uint32, 1)\<close> starts as 0. \<open>ReadData\<close> stands for the method of the counter
  buffers, with the arguments of the call (two offsets and the size 4) and the content of
  the slot \<^verbatim>\<open>out[0]\<close>: it gives its error, what the slot holds after the call, and the next
  state of the world. The error is not bound to a variable. Indexing \<^verbatim>\<open>RayCounters\<close> out
  of range panics: \<open>None\<close>.
\<close>

definition readCounter ::
  "('b \<Rightarrow> nat \<Rightarrow> nat \<Rightarrow> nat \<Rightarrow> 32 word \<Rightarrow> 'w \<Rightarrow> (error option \<times> 32 word) \<times> 'w)
   \<Rightarrow> 'b list \<Rightarrow> 32 word \<Rightarrow> 'w \<Rightarrow> (32 word \<times> 'w) option" where
  "readCounter ReadData RayCounters counterIndex w =
     (if unat counterIndex < length RayCounters then
        (case ReadData (RayCounters ! unat counterIndex) 0 0 4 0 w of
           ((e, out0), w') \<Rightarrow> Some (out0, w'))
      else None)"

section \<open>Reading a trace\<close>

text \<open>The deferred \<^verbatim>\<open>f.Close()\<close> is the one call whose error the code drops.\<close>

fun isClose :: "call \<Rightarrow> bool" where
  "isClose (FileClose f) = True"
| "isClose _ = False"

text \<open>
  A stretch of a trace without a reported error: every call in it returned \<^verbatim>\<open>nil\<close> or is
  the deferred close. A stretch of deferred closes only.
\<close>

definition quiet :: "entry list \<Rightarrow> bool" where
  "quiet l = list_all (\<lambda>(c, r). isClose c \<or> r = None) l"

definition closes :: "entry list \<Rightarrow> bool" where
  "closes l = list_all (\<lambda>(c, r). isClose c) l"

text \<open>
  The result \<open>r\<close> of a stage matches its trace \<open>l\<close>: without an error the trace is quiet;
  with the returned error \<open>e\<close>, the first call that is not a close and did not return
  \<^verbatim>\<open>nil\<close> returned \<open>e\<close>, and only closes follow it; with a panic the trace is quiet, since
  no error was returned to the code.
\<close>

fun shaped :: "ending option \<Rightarrow> entry list \<Rightarrow> bool" where
  "shaped None l = quiet l"
| "shaped (Some (Returned e)) l =
     (case dropWhile (\<lambda>(c, r). isClose c \<or> r = None) l of
        [] \<Rightarrow> False
      | (c, r) # post \<Rightarrow> r = Some e \<and> closes post)"
| "shaped (Some (Panicked m)) l = quiet l"

definition shapedStage :: "'w stage \<Rightarrow> bool" where
  "shapedStage f = (\<forall>s. case f s of (r, s', l) \<Rightarrow> shaped r l)"

text \<open>
  The ray buffer index of a call made on the active buffer, and of a call made on the
  buffer of the occlusion rays.
\<close>

fun activeBufferOf :: "call \<Rightarrow> 32 word option" where
  "activeBufferOf (RayPacketIntersectionQuery b n) = Some b"
| "activeBufferOf (RayIntersectionQuery b n) = Some b"
| "activeBufferOf (ShadePrimaryRayMisses m b n) = Some b"
| "activeBufferOf (ShadeIndirectRayMisses m b n) = Some b"
| "activeBufferOf (ShadeHits bounce m seed k b n) = Some b"
| "activeBufferOf (DebugRayIntersectionDepth blockReq b) = Some b"
| "activeBufferOf (DebugRayIntersectionNormals blockReq b) = Some b"
| "activeBufferOf _ = None"

fun occlusionBufferOf :: "call \<Rightarrow> 32 word option" where
  "occlusionBufferOf (RayIntersectionTest b n) = Some b"
| "occlusionBufferOf (AccumulateEmissiveSamples b n) = Some b"
| "occlusionBufferOf _ = None"

text \<open>The ping-pong indices, and a call whose buffer index is where it belongs.\<close>

definition bufferIndexOK :: "call \<Rightarrow> bool" where
  "bufferIndexOK c =
     ((case activeBufferOf c of None \<Rightarrow> True | Some b \<Rightarrow> b = 0 \<or> b = 1)
      \<and> (case occlusionBufferOf c of None \<Rightarrow> True | Some b \<Rightarrow> b = 2))"

definition pingPong :: "32 word \<Rightarrow> bool" where
  "pingPong b \<longleftrightarrow> b = 0 \<or> b = 1"

text \<open>
  Kinds of calls: miss shading; the calls of a debug capture (the debug kernels and what
  \<^verbatim>\<open>dumpDebugBuffer\<close> does); the packet query.
\<close>

fun isMissShading :: "call \<Rightarrow> bool" where
  "isMissShading (ShadePrimaryRayMisses m b n) = True"
| "isMissShading (ShadeIndirectRayMisses m b n) = True"
| "isMissShading _ = False"

fun isDebugCall :: "call \<Rightarrow> bool" where
  "isDebugCall (DebugRayIntersectionDepth blockReq b) = True"
| "isDebugCall (DebugRayIntersectionNormals blockReq b) = True"
| "isDebugCall (DebugThroughput blockReq) = True"
| "isDebugCall (DebugEmissiveSamples blockReq x y) = True"
| "isDebugCall (DebugAccumulator blockReq) = True"
| "isDebugCall (OsCreate f) = True"
| "isDebugCall (DebugOutputReadData w h) = True"
| "isDebugCall (PngEncode f) = True"
| "isDebugCall (FileClose f) = True"
| "isDebugCall _ = False"

fun isPacketQuery :: "call \<Rightarrow> bool" where
  "isPacketQuery (RayPacketIntersectionQuery b n) = True"
| "isPacketQuery _ = False"

text \<open>
  A stage keeps \<open>I\<close> and \<open>P\<close>: entered with \<open>I\<close> of the active buffer index, it leaves with
  \<open>I\<close> of it, whatever its outcome, and every call it made satisfies \<open>P\<close>. \<open>dumpAllowed P\<close>:
  the calls of \<^verbatim>\<open>dumpDebugBuffer\<close> satisfy \<open>P\<close>.
\<close>

definition keeps :: "(32 word \<Rightarrow> bool) \<Rightarrow> (call \<Rightarrow> bool) \<Rightarrow> 'w stage \<Rightarrow> bool" where
  "keeps I P f =
     (\<forall>s. I (activeRayBuf s) \<longrightarrow>
        (case f s of (r, s', l) \<Rightarrow> I (activeRayBuf s') \<and> list_all (\<lambda>(c, r). P c) l))"

definition dumpAllowed :: "(call \<Rightarrow> bool) \<Rightarrow> bool" where
  "dumpAllowed P = (\<forall>f w h. P (OsCreate f) \<and> P (DebugOutputReadData w h) \<and> P (PngEncode f)
     \<and> P (FileClose f))"

section \<open>The calls of a run without errors\<close>

text \<open>
  What a run that returns \<^verbatim>\<open>nil\<close> calls, as lists: the calls of one debug capture, of the
  miss shading, of the buffer swap, of iteration \<open>bounce\<close> entered with the active buffer
  \<open>active\<close> and the seed \<open>seed\<close>, and of the part before the loop. \<open>bufferAt b\<close> is the
  active buffer of bounce \<open>b\<close>, and \<open>schedule\<close> the calls of the whole run, given the seeds.
  The lemmas below relate them to the run.
\<close>

definition captureCalls :: "BlockRequest \<Rightarrow> call \<Rightarrow> string \<Rightarrow> call list" where
  "captureCalls blockReq k imgFile =
     [k, OsCreate imgFile, DebugOutputReadData (FrameW blockReq) (FrameH blockReq),
      PngEncode imgFile, FileClose imgFile]"

definition optionalCapture :: "bool \<Rightarrow> BlockRequest \<Rightarrow> call \<Rightarrow> string \<Rightarrow> call list" where
  "optionalCapture b blockReq k imgFile = (if b then captureCalls blockReq k imgFile else [])"

definition missCalls :: "Tracer \<Rightarrow> BlockRequest \<Rightarrow> 32 word \<Rightarrow> 32 word \<Rightarrow> call list" where
  "missCalls tr blockReq bounce active =
     (if SceneDiffuseMatIndex tr = - 1 then []
      else if bounce = 0
        then [ShadePrimaryRayMisses (word_of_int (SceneDiffuseMatIndex tr)) active
                (numPixels blockReq)]
        else [ShadeIndirectRayMisses (word_of_int (SceneDiffuseMatIndex tr)) active
                (numPixels blockReq)])"

definition swapCalls :: "BlockRequest \<Rightarrow> 32 word \<Rightarrow> 32 word \<Rightarrow> call list" where
  "swapCalls blockReq bounce active =
     (if bounce + 1 < NumBounces blockReq
      then [RayIntersectionQuery (1 - active) (numPixels blockReq)] else [])"

definition bounceCalls ::
  "DebugFlag \<Rightarrow> Tracer \<Rightarrow> BlockRequest \<Rightarrow> 32 word \<Rightarrow> 32 word \<Rightarrow> 32 word \<Rightarrow> call list" where
  "bounceCalls debugFlags tr blockReq bounce active seed =
     missCalls tr blockReq bounce active
     @ [ShadeHits bounce (MinBouncesForRR blockReq) seed (numEmissives tr) active
          (numPixels blockReq)]
     @ optionalCapture (hasFlag debugFlags Throughput) blockReq (DebugThroughput blockReq)
         (bounceFile ''throughput'' bounce)
     @ [RayIntersectionTest 2 (numPixels blockReq),
        AccumulateEmissiveSamples 2 (numPixels blockReq)]
     @ optionalCapture (hasFlag debugFlags AllEmissiveSamples) blockReq
         (DebugEmissiveSamples blockReq 0 0) (bounceFile ''emissive-all'' bounce)
     @ optionalCapture (hasFlag debugFlags VisibleEmissiveSamples) blockReq
         (DebugEmissiveSamples blockReq 1 0) (bounceFile ''emissive-vis'' bounce)
     @ optionalCapture (hasFlag debugFlags OccludedEmissiveSamples) blockReq
         (DebugEmissiveSamples blockReq 0 1) (bounceFile ''emissive-occ'' bounce)
     @ optionalCapture (hasFlag debugFlags Accumulator) blockReq
         (DebugAccumulator blockReq) (bounceFile ''accumulator'' bounce)
     @ swapCalls blockReq bounce active"

definition bufferAt :: "nat \<Rightarrow> 32 word" where
  "bufferAt b = (if even b then 0 else 1)"

definition primaryCalls :: "DebugFlag \<Rightarrow> Tracer \<Rightarrow> BlockRequest \<Rightarrow> call list" where
  "primaryCalls debugFlags tr blockReq =
     [if deviceType tr = GpuDevice then RayPacketIntersectionQuery 0 (numPixels blockReq)
      else RayIntersectionQuery 0 (numPixels blockReq)]
     @ optionalCapture (hasFlag debugFlags PrimaryRayIntersectionDepth) blockReq
         (DebugRayIntersectionDepth blockReq 0) ''debug-primary-intersection-depth.png''
     @ optionalCapture (hasFlag debugFlags PrimaryRayIntersectionNormals) blockReq
         (DebugRayIntersectionNormals blockReq 0) ''debug-primary-intersection-normals.png''"

definition schedule ::
  "(nat \<Rightarrow> 32 word) \<Rightarrow> DebugFlag \<Rightarrow> Tracer \<Rightarrow> BlockRequest \<Rightarrow> call list" where
  "schedule sd debugFlags tr blockReq =
     primaryCalls debugFlags tr blockReq
     @ concat (map (\<lambda>b. bounceCalls debugFlags tr blockReq (word_of_nat b) (bufferAt b) (sd b))
                 [0..<unat (NumBounces blockReq)])"

text \<open>The integrator's own variables in a state.\<close>

definition locals :: "'w istate \<Rightarrow> 32 word \<times> nat \<times> nat" where
  "locals s = (activeRayBuf s, draws s, swaps s)"

text \<open>
  The occlusion test and the emissive accumulation; the bounce and the ray buffer of a
  hit-shading call.
\<close>

fun isOcclusionStep :: "call \<Rightarrow> bool" where
  "isOcclusionStep (RayIntersectionTest b n) = True"
| "isOcclusionStep (AccumulateEmissiveSamples b n) = True"
| "isOcclusionStep _ = False"





text \<open>A stage that never panics.\<close>

fun isPanic :: "ending option \<Rightarrow> bool" where
  "isPanic (Some (Panicked m)) = True"
| "isPanic _ = False"



text \<open>
  Two states with the same view and the same integrator variables; and a stage \<open>g\<close> that
  follows a stage \<open>f\<close>: from alike states, when \<open>f\<close> ends without error, so does \<open>g\<close>, in
  alike states, having made the calls of \<open>f\<close> that are not part of a debug capture.
\<close>

definition alike :: "('w \<Rightarrow> 'v) \<Rightarrow> 'w istate \<Rightarrow> 'w istate \<Rightarrow> bool" where
  "alike view s1 s2 \<longleftrightarrow> view (world s1) = view (world s2) \<and> locals s1 = locals s2"


text \<open>
  Modelled from the spec: the two intersection kernels behind
  \<^verbatim>\<open>tr.resources.RayPacketIntersectionQuery\<close> and \<^verbatim>\<open>tr.resources.RayIntersectionQuery\<close>, which
  are code of this repository outside the files at hand. The spec (4.2, step 1, and 6) has
  them "intersect primary rays (buffer 0) against the scene", as "a batched/packet
  intersection query" and "a per-ray query" of a buffer index and a count, each returning a
  duration and an error, and says of the choice: "This choice is a performance optimization,
  not a semantic difference - results must be identical." So: the per-ray query intersects
  the first \<open>count\<close> rays of the buffer one by one; the packet query cuts them into packets of
  \<open>packetSize\<close> rays and intersects packet by packet; \<open>intersect\<close> is the intersection of one
  ray with the scene, and the result of a query is the list of the intersections found.
\<close>

definition perRayQuery :: "('ray \<Rightarrow> 'hit) \<Rightarrow> 'ray list \<Rightarrow> nat \<Rightarrow> 'hit list" where
  "perRayQuery intersect rays count = map intersect (take count rays)"

fun packets :: "nat \<Rightarrow> 'a list \<Rightarrow> 'a list list" where
  "packets packetSize xs =
     (if packetSize = 0 \<or> xs = [] then []
      else take packetSize xs # packets packetSize (drop packetSize xs))"

declare packets.simps [simp del]

definition packetQuery :: "nat \<Rightarrow> ('ray \<Rightarrow> 'hit) \<Rightarrow> 'ray list \<Rightarrow> nat \<Rightarrow> 'hit list" where
  "packetQuery packetSize intersect rays count =
     concat (map (map intersect) (packets packetSize (take count rays)))"

text \<open>
  Modelled from the spec: a device that runs these kernels, the Device Resource Gateway of
  the spec (6). Its state holds the ray buffers, the intersection results and whatever the
  other operations keep; the outside world is this state and the time. The two queries
  never fail and store their results; every other operation is \<open>other\<close>, any function of the
  call and the device state; a call \<open>c\<close> takes the time \<open>cost c\<close>, so the two queries may
  take different times.
\<close>

record ('ray, 'hit, 'x) device =
  rayBuffers :: "32 word \<Rightarrow> 'ray list"
  hitBuffer :: "'hit list"
  others :: 'x

definition kernelHost ::
  "nat \<Rightarrow> ('ray \<Rightarrow> 'hit)
   \<Rightarrow> (call \<Rightarrow> ('ray, 'hit, 'x) device \<Rightarrow> error option \<times> ('ray, 'hit, 'x) device)
   \<Rightarrow> (call \<Rightarrow> int) \<Rightarrow> (nat \<Rightarrow> 32 word) \<Rightarrow> (('ray, 'hit, 'x) device \<times> int) host" where
  "kernelHost packetSize intersect other cost sd =
     \<lparr>dev = (\<lambda>c (d, t).
         (case c of
            RayPacketIntersectionQuery b n \<Rightarrow>
              (None, (d\<lparr>hitBuffer := packetQuery packetSize intersect (rayBuffers d b) (nat n)\<rparr>,
                      t + cost c))
          | RayIntersectionQuery b n \<Rightarrow>
              (None, (d\<lparr>hitBuffer := perRayQuery intersect (rayBuffers d b) (nat n)\<rparr>,
                      t + cost c))
          | _ \<Rightarrow> (case other c d of (e, d') \<Rightarrow> (e, (d', t + cost c))))),
      clock = snd, seeds = sd\<rparr>"

text \<open>
  A host whose answers depend on a view of the world only: from two worlds with the same
  view, a call returns the same error and leaves worlds with the same view. A stage that
  mirrors itself: from alike states it ends the same way, after the same calls with the
  same answers, in alike states.
\<close>

definition viewDetermined :: "'w host \<Rightarrow> ('w \<Rightarrow> 'v) \<Rightarrow> bool" where
  "viewDetermined h view \<longleftrightarrow>
     (\<forall>c w1 w2. view w1 = view w2 \<longrightarrow>
        fst (dev h c w1) = fst (dev h c w2)
        \<and> view (snd (dev h c w1)) = view (snd (dev h c w2)))"

definition mirrors :: "('w \<Rightarrow> 'v) \<Rightarrow> 'w stage \<Rightarrow> bool" where
  "mirrors view f =
     (\<forall>s1 s2. alike view s1 s2 \<longrightarrow>
        fst (f s1) = fst (f s2) \<and> snd (snd (f s1)) = snd (snd (f s2))
        \<and> alike view (fst (snd (f s1))) (fst (snd (f s2))))"

section \<open>Concrete hosts and requests\<close>

text \<open>
  The scenario of the spec (section 8): a slab of 64 rows of a 256 by 256 frame, 3 bounces,
  Russian roulette from bounce 2, two emissive primitives and a background material, on a
  GPU; and a device whose hit shading fails on bounce 1. The world of \<open>countingHost\<close>
  counts the calls made, its clock ticks once per call, and its \<open>k\<close>-th seed is \<open>k\<close>.
\<close>

fun hitFailure :: "call \<Rightarrow> error option" where
  "hitFailure (ShadeHits bounce m seed n b k) =
     (if bounce = 1 then Some ''hit shading failed'' else None)"
| "hitFailure _ = None"

definition countingHost :: "(call \<Rightarrow> error option) \<Rightarrow> nat host" where
  "countingHost answer =
     \<lparr>dev = (\<lambda>c w. (answer c, Suc w)), clock = int, seeds = word_of_nat\<rparr>"

definition scenarioRequest :: BlockRequest where
  "scenarioRequest =
     \<lparr>FrameW = 256, FrameH = 256, BlockY = 0, BlockH = 64, SamplesPerPixel = 4,
      NumBounces = 3, MinBouncesForRR = 2\<rparr>"

definition scenarioTracer :: Tracer where
  "scenarioTracer = \<lparr>deviceType = GpuDevice, lenEmissivePrimitives = 2, SceneDiffuseMatIndex = 0\<rparr>"

text \<open>
  A device that never fails, a host on which only \<^verbatim>\<open>os.Create\<close> fails, the scenario's
  request with no bounce, and the same with the largest frame.
\<close>

definition okHost :: "nat host" where
  "okHost = countingHost (\<lambda>c. None)"


definition zeroBounceRequest :: BlockRequest where
  "zeroBounceRequest = scenarioRequest\<lparr>NumBounces := 0\<rparr>"

definition hugeFrameRequest :: BlockRequest where
  "hugeFrameRequest = zeroBounceRequest\<lparr>FrameW := 4294967295, FrameH := 4294967295\<rparr>"

text \<open>
  The scenario's scene without a background material, and a state at the start of bounce 1
  of the scenario.
\<close>

definition noBackgroundTracer :: Tracer where
  "noBackgroundTracer = scenarioTracer\<lparr>SceneDiffuseMatIndex := - 1\<rparr>"

definition midRunState :: "nat istate" where
  "midRunState = \<lparr>world = 6, activeRayBuf = 1, draws = 1, swaps = 1\<rparr>"

text \<open>A read-back that fails and leaves the slot as it was, and one that delivers 0.\<close>

definition failingRead ::
  "unit \<Rightarrow> nat \<Rightarrow> nat \<Rightarrow> nat \<Rightarrow> 32 word \<Rightarrow> nat \<Rightarrow> (error option \<times> 32 word) \<times> nat" where
  "failingRead b srcOffset dstOffset nbytes out0 w = ((Some ''read failed'', out0), Suc w)"

definition zeroRead ::
  "unit \<Rightarrow> nat \<Rightarrow> nat \<Rightarrow> nat \<Rightarrow> 32 word \<Rightarrow> nat \<Rightarrow> (error option \<times> 32 word) \<times> nat" where
  "zeroRead b srcOffset dstOffset nbytes out0 w = ((None, 0), Suc w)"

text \<open>A device whose read-back of the debug output buffer fails.\<close>

fun readbackFailure :: "call \<Rightarrow> error option" where
  "readbackFailure (DebugOutputReadData w h) = Some ''readback failed''"
| "readbackFailure _ = None"


text \<open>
  The scenario on a CPU device and with one bounce; and a device with five rays in buffer 0, whose scene
  answers the ray \<open>r\<close> with \<open>10 * r\<close>, with packets of two rays, a per-ray query that takes
  five ticks and a packet query that takes three.
\<close>

definition cpuTracer :: Tracer where
  "cpuTracer = scenarioTracer\<lparr>deviceType := CpuDevice\<rparr>"

definition oneBounceRequest :: BlockRequest where
  "oneBounceRequest = scenarioRequest\<lparr>NumBounces := 1\<rparr>"

definition fiveRays :: "(nat, nat, unit) device" where
  "fiveRays = \<lparr>rayBuffers = (\<lambda>b. if b = 0 then [1, 2, 3, 4, 5] else []), hitBuffer = [],
               others = ()\<rparr>"

fun queryCost :: "call \<Rightarrow> int" where
  "queryCost (RayPacketIntersectionQuery b n) = 3"
| "queryCost (RayIntersectionQuery b n) = 5"
| "queryCost _ = 1"

definition fiveRayHost :: "((nat, nat, unit) device \<times> int) host" where
  "fiveRayHost = kernelHost 2 (\<lambda>r. 10 * r) (\<lambda>c d. (None, d)) queryCost word_of_nat"

section \<open>The trace of a run ends at its first error\<close>

lemma quiet_append [simp]: "quiet (l1 @ l2) = (quiet l1 \<and> quiet l2)"
  by (simp add: quiet_def)

lemma closes_append [simp]: "closes (l1 @ l2) = (closes l1 \<and> closes l2)"
  by (simp add: closes_def)

lemma shaped_Some_iff:
  "shaped (Some (Returned e)) l \<longleftrightarrow>
     (\<exists>pre c post. l = pre @ (c, Some e) # post \<and> quiet pre \<and> \<not> isClose c \<and> closes post)"
  (is "?L \<longleftrightarrow> ?R")
proof
  let ?P = "\<lambda>(c, r). isClose c \<or> r = None"
  assume ?L
  then obtain c post where d: "dropWhile ?P l = (c, Some e) # post" and p: "closes post"
    by (auto split: list.splits)
  from d have "dropWhile ?P l \<noteq> []" by simp
  then have "\<not> ?P (hd (dropWhile ?P l))"
    by (rule hd_dropWhile [of ?P l])
  then have nc: "\<not> isClose c" unfolding d by simp
  have "list_all ?P (takeWhile ?P l)"
    unfolding list_all_iff using set_takeWhileD [of _ ?P l] by blast
  then have q: "quiet (takeWhile ?P l)" by (simp add: quiet_def)
  have "l = takeWhile ?P l @ dropWhile ?P l" by simp
  with d have "l = takeWhile ?P l @ (c, Some e) # post" by simp
  with q nc p show ?R by blast
next
  let ?P = "\<lambda>(c, r). isClose c \<or> r = None"
  assume ?R
  then obtain pre c post where l: "l = pre @ (c, Some e) # post" and q: "quiet pre"
    and nc: "\<not> isClose c" and p: "closes post"
    by blast
  from q have pre: "dropWhile ?P pre = []"
    by (simp add: quiet_def list_all_iff)
  from nc have "\<not> ?P (c, Some e)" by simp
  then have "dropWhile ?P (pre @ (c, Some e) # post) = dropWhile ?P pre @ (c, Some e) # post"
    by (rule dropWhile_append3)
  then have "dropWhile ?P l = (c, Some e) # post"
    unfolding l pre by simp
  then show ?L using p by simp
qed

lemma shaped_prepend: "quiet l1 \<Longrightarrow> shaped r l2 \<Longrightarrow> shaped r (l1 @ l2)"
proof (cases r)
  case None
  assume "quiet l1" "shaped r l2"
  with None show ?thesis by simp
next
  case (Some x)
  assume q: "quiet l1" and sh: "shaped r l2"
  show ?thesis
  proof (cases x)
    case (Panicked m)
    with q sh Some show ?thesis by simp
  next
    case (Returned e)
    with sh Some have "shaped (Some (Returned e)) l2" by simp
    then obtain pre c post where "l2 = pre @ (c, Some e) # post" "quiet pre"
      "\<not> isClose c" "closes post"
      unfolding shaped_Some_iff by blast
    with q have "l1 @ l2 = (l1 @ pre) @ (c, Some e) # post \<and> quiet (l1 @ pre)
        \<and> \<not> isClose c \<and> closes post"
      by simp
    then show ?thesis unfolding Some Returned shaped_Some_iff by blast
  qed
qed

lemma closes_quiet: "closes l \<Longrightarrow> quiet l"
  by (auto simp: quiet_def closes_def list_all_iff)

lemma shaped_closes: "shaped r l1 \<Longrightarrow> closes l2 \<Longrightarrow> shaped r (l1 @ l2)"
proof (cases r)
  case None
  assume "shaped r l1" "closes l2"
  with None show ?thesis by (simp add: closes_quiet)
next
  case (Some x)
  assume sh: "shaped r l1" and cl: "closes l2"
  show ?thesis
  proof (cases x)
    case (Panicked m)
    with sh cl Some show ?thesis by (simp add: closes_quiet)
  next
    case (Returned e)
    with sh Some have "shaped (Some (Returned e)) l1" by simp
    then obtain pre c post where "l1 = pre @ (c, Some e) # post" "quiet pre"
      "\<not> isClose c" "closes post"
      unfolding shaped_Some_iff by blast
    with cl have "l1 @ l2 = pre @ (c, Some e) # (post @ l2) \<and> quiet pre
        \<and> \<not> isClose c \<and> closes (post @ l2)"
      by simp
    then show ?thesis unfolding Some Returned shaped_Some_iff by blast
  qed
qed

lemma shaped_single: "\<not> isClose c \<Longrightarrow> shaped (map_option Returned err) [(c, err)]"
  by (cases err) (simp_all add: quiet_def closes_def)

lemma perform_result:
  "perform h c s = (err, s', l) \<Longrightarrow> l = [(c, err)] \<and> s' = s\<lparr>world := snd (dev h c (world s))\<rparr>"
  by (auto simp: perform_def split: prod.splits)

lemma invoke_result:
  "invoke h c s = (r, s', l) \<Longrightarrow> \<exists>err. l = [(c, err)] \<and> r = map_option Returned err"
  by (auto simp: invoke_def perform_def split: prod.splits)

lemma shaped_invoke: "\<not> isClose c \<Longrightarrow> shapedStage (invoke h c)"
  by (simp add: shapedStage_def invoke_def perform_def shaped_single split: prod.splits)

lemma shaped_newRGBA: "shapedStage (newRGBA frameW frameH)"
  by (simp add: shapedStage_def newRGBA_def quiet_def)

lemma shaped_skip: "shapedStage skip"
  by (simp add: shapedStage_def skip_def quiet_def)

lemma shaped_andThen:
  assumes "shapedStage f" and "shapedStage g"
  shows "shapedStage (andThen f g)"
  unfolding shapedStage_def
proof
  fix s
  obtain r s' l where f: "f s = (r, s', l)" by (cases "f s") auto
  obtain r2 s2 l2 where g: "g s' = (r2, s2, l2)" by (cases "g s'") auto
  from assms(1) f have sf: "shaped r l" by (auto simp: shapedStage_def split: prod.splits)
  from assms(2) g have sg: "shaped r2 l2" by (auto simp: shapedStage_def split: prod.splits)
  show "case andThen f g s of (r, s', l) \<Rightarrow> shaped r l"
  proof (cases r)
    case None
    with sf have "quiet l" by simp
    then have "shaped r2 (l @ l2)" using sg by (rule shaped_prepend)
    with None f g show ?thesis by (simp add: andThen_def)
  next
    case (Some e)
    with sf f show ?thesis by (simp add: andThen_def)
  qed
qed

lemma shaped_whenFlag: "shapedStage f \<Longrightarrow> shapedStage (whenFlag b f)"
  by (simp add: whenFlag_def shaped_skip)


lemma shapedStageD: "shapedStage f \<Longrightarrow> f s = (r, s', l) \<Longrightarrow> shaped r l"
  by (auto simp: shapedStage_def split: prod.splits)

lemma shaped_dumpDebugBuffer:
  assumes "dumpDebugBuffer h None frameW frameH imgFile s = (r, s', l)"
  shows "shaped r l"
proof -
  obtain r1 s1 l1 where c: "invoke h (OsCreate imgFile) s = (r1, s1, l1)"
    by (cases "invoke h (OsCreate imgFile) s") auto
  have sh1: "shaped r1 l1"
    using shaped_invoke [of "OsCreate imgFile" h] c by (auto dest: shapedStageD)
  show ?thesis
  proof (cases r1)
    case (Some e)
    with assms c sh1 show ?thesis
      by (auto simp add: dumpDebugBuffer_def)
  next
    case None
    let ?mid = "andThen (newRGBA frameW frameH)
                  (andThen (invoke h (DebugOutputReadData frameW frameH))
                           (invoke h (PngEncode imgFile)))"
    obtain r2 s2 l2 where m: "?mid s1 = (r2, s2, l2)"
      by (cases "?mid s1") auto
    obtain r3 s3 l3 where f: "invoke h (FileClose imgFile) s2 = (r3, s3, l3)"
      by (cases "invoke h (FileClose imgFile) s2") auto
    then obtain err3 where l3: "l3 = [(FileClose imgFile, err3)]"
      using invoke_result by blast
    have "shapedStage ?mid"
      by (intro shaped_andThen shaped_invoke shaped_newRGBA) simp_all
    then have "shaped r2 l2" using m by (rule shapedStageD)
    moreover have "closes l3" by (simp add: l3 closes_def)
    ultimately have "shaped r2 (l2 @ l3)" by (rule shaped_closes)
    moreover from sh1 None have "quiet l1" by simp
    ultimately have "shaped r2 (l1 @ l2 @ l3)" by (simp add: shaped_prepend)
    with assms c None m f show ?thesis
      by (simp add: dumpDebugBuffer_def)
  qed
qed

lemma shaped_debugCapture:
  assumes "\<not> isClose k"
  shows "shapedStage (debugCapture h blockReq k imgFile)"
  unfolding shapedStage_def
proof
  fix s
  obtain err s1 l1 where c: "perform h k s = (err, s1, l1)"
    by (cases "perform h k s") auto
  then have l1: "l1 = [(k, err)]" by (simp add: perform_result)
  show "case debugCapture h blockReq k imgFile s of (r, s', l) \<Rightarrow> shaped r l"
  proof (cases err)
    case (Some e)
    with c l1 assms show ?thesis
      by (simp add: debugCapture_def dumpDebugBuffer_def closes_def)
  next
    case None
    obtain r2 s2 l2 where d: "dumpDebugBuffer h None (FrameW blockReq) (FrameH blockReq)
        imgFile s1 = (r2, s2, l2)"
      by (cases "dumpDebugBuffer h None (FrameW blockReq) (FrameH blockReq) imgFile s1") auto
    then have "shaped r2 l2" by (rule shaped_dumpDebugBuffer)
    moreover have "quiet l1" by (simp add: l1 None quiet_def)
    ultimately have "shaped r2 (l1 @ l2)" by (simp add: shaped_prepend)
    with c None d show ?thesis by (simp add: debugCapture_def)
  qed
qed

lemma shaped_debugCapture_active:
  assumes "\<And>s. \<not> isClose (k s)"
  shows "shapedStage (\<lambda>s. debugCapture h blockReq (k s) imgFile s)"
  unfolding shapedStage_def
proof
  fix s
  have "shapedStage (debugCapture h blockReq (k s) imgFile)"
    using assms by (rule shaped_debugCapture)
  then show "case debugCapture h blockReq (k s) imgFile s of (r, s', l) \<Rightarrow> shaped r l"
    by (simp add: shapedStage_def)
qed

lemma shaped_primaryIntersection: "shapedStage (primaryIntersection h tr blockReq)"
  using shaped_invoke [of "RayPacketIntersectionQuery b n" h for b n]
    shaped_invoke [of "RayIntersectionQuery b n" h for b n]
  by (simp add: shapedStage_def primaryIntersection_def)

lemma shaped_shadeMisses: "shapedStage (shadeMisses h tr blockReq bounce)"
  using shaped_invoke [of "ShadePrimaryRayMisses m b n" h for m b n]
    shaped_invoke [of "ShadeIndirectRayMisses m b n" h for m b n]
  by (simp add: shapedStage_def shadeMisses_def skip_def quiet_def)

lemma shaped_shadeHits: "shapedStage (shadeHits h tr blockReq bounce)"
  using shaped_invoke [of "ShadeHits a b c d e n" h for a b c d e n]
  by (simp add: shapedStage_def shadeHits_def)

lemma shaped_swapBuffers: "shapedStage (swapBuffers h blockReq bounce)"
  using shaped_invoke [of "RayIntersectionQuery b n" h for b n]
  by (simp add: shapedStage_def swapBuffers_def skip_def quiet_def)

lemma shaped_bounceBody: "shapedStage (bounceBody h debugFlags tr blockReq bounce)"
  unfolding bounceBody_def
  by (intro shaped_andThen shaped_whenFlag shaped_debugCapture shaped_invoke
      shaped_shadeMisses shaped_shadeHits shaped_swapBuffers) simp_all

lemma shaped_bounceLoop_aux:
  "case bounceLoop h debugFlags tr blockReq bounce s of (r, s', l) \<Rightarrow> shaped r l"
proof (induction h debugFlags tr blockReq bounce s rule: bounceLoop.induct)
  case (1 h debugFlags tr blockReq bounce s)
  show ?case
  proof (cases "bounce < NumBounces blockReq")
    case False
    then show ?thesis by (simp add: bounceLoop.simps [of _ _ _ _ bounce] quiet_def)
  next
    case True
    obtain r1 s1 l1 where b: "bounceBody h debugFlags tr blockReq bounce s = (r1, s1, l1)"
      by (cases "bounceBody h debugFlags tr blockReq bounce s") auto
    with shaped_bounceBody have sb: "shaped r1 l1" by (rule shapedStageD)
    show ?thesis
    proof (cases r1)
      case (Some e)
      with True b sb show ?thesis by (simp add: bounceLoop.simps [of _ _ _ _ bounce])
    next
      case None
      obtain r2 s2 l2 where
        n: "bounceLoop h debugFlags tr blockReq (bounce + 1) s1 = (r2, s2, l2)"
        by (cases "bounceLoop h debugFlags tr blockReq (bounce + 1) s1") auto
      from "1.IH" [OF True b [symmetric] None refl] n have "shaped r2 l2" by simp
      moreover from sb None have "quiet l1" by simp
      ultimately have "shaped r2 (l1 @ l2)" by (simp add: shaped_prepend)
      with True b None n show ?thesis by (simp add: bounceLoop.simps [of _ _ _ _ bounce])
    qed
  qed
qed

lemma shaped_bounceLoop: "shapedStage (bounceLoop h debugFlags tr blockReq bounce)"
  by (simp add: shapedStage_def shaped_bounceLoop_aux)

lemma shaped_integratorStages: "shapedStage (integratorStages h debugFlags tr blockReq)"
  unfolding integratorStages_def
  by (intro shaped_andThen shaped_whenFlag shaped_primaryIntersection shaped_bounceLoop
      shaped_debugCapture_active) simp_all


lemma shaped_trace:
  "shaped (failure (MonteCarloIntegrator h debugFlags tr blockReq w))
     (trace (MonteCarloIntegrator h debugFlags tr blockReq w))"
proof -
  obtain r s' l where
    run: "integratorStages h debugFlags tr blockReq
            \<lparr>world = w, activeRayBuf = 0, draws = 0, swaps = 0\<rparr> = (r, s', l)"
    by (cases "integratorStages h debugFlags tr blockReq
            \<lparr>world = w, activeRayBuf = 0, draws = 0, swaps = 0\<rparr>") auto
  with shaped_integratorStages have "shaped r l" by (rule shapedStageD)
  with run show ?thesis by (simp add: MonteCarloIntegrator_def)
qed

lemma elapsed_run:
  "elapsed (MonteCarloIntegrator h debugFlags tr blockReq w)
     = clock h (world (final (MonteCarloIntegrator h debugFlags tr blockReq w))) - clock h w"
  by (simp add: MonteCarloIntegrator_def split: prod.splits)

lemma quiet_nth: "quiet l \<Longrightarrow> i < length l \<Longrightarrow> l ! i = (c, r) \<Longrightarrow> isClose c \<or> r = None"
  by (auto simp: quiet_def list_all_length split: prod.splits)

lemma closes_nth: "closes l \<Longrightarrow> i < length l \<Longrightarrow> l ! i = (c, r) \<Longrightarrow> isClose c"
  by (auto simp: closes_def list_all_length split: prod.splits)

lemma shaped_first_error:
  assumes sh: "shaped r l" and i: "i < length l" and at: "l ! i = (c, Some e)"
    and nc: "\<not> isClose c"
  shows "r = Some (Returned e) \<and> quiet (take i l) \<and> closes (drop (Suc i) l)"
proof (cases "\<exists>e'. r = Some (Returned e')")
  case False
  have "quiet l"
  proof (cases r)
    case None
    with sh show ?thesis by simp
  next
    case (Some x)
    with False obtain m where "x = Panicked m" by (cases x) auto
    with sh Some show ?thesis by simp
  qed
  from quiet_nth [OF this i at] nc show ?thesis by simp
next
  case True
  then obtain e' where Some: "r = Some (Returned e')" by blast
  with sh have "shaped (Some (Returned e')) l" by simp
  then obtain pre c' post where l: "l = pre @ (c', Some e') # post" and q: "quiet pre"
    and p: "closes post"
    unfolding shaped_Some_iff by blast
  have ipre: "i = length pre"
  proof (rule ccontr)
    assume ne: "i \<noteq> length pre"
    show False
    proof (cases "i < length pre")
      case True
      with at have "pre ! i = (c, Some e)" unfolding l by (simp add: nth_append)
      from quiet_nth [OF q True this] nc show False by simp
    next
      case False
      with ne have gt: "length pre < i" by simp
      define k where "k = i - Suc (length pre)"
      with gt have k: "i = length pre + Suc k" by simp
      from i have kl: "k < length post" unfolding l k by simp
      from at have "post ! k = (c, Some e)" unfolding l k by (simp add: nth_append)
      from closes_nth [OF p kl this] nc show False by simp
    qed
  qed
  from at have "e' = e" unfolding l ipre by simp
  moreover have "take i l = pre" unfolding l ipre by simp
  moreover have "drop (Suc i) l = post" unfolding l ipre by simp
  ultimately show ?thesis using q p Some by simp
qed

lemma scenario_run:
  "MonteCarloIntegrator (countingHost hitFailure) NoDebug scenarioTracer scenarioRequest 0
   = \<lparr>elapsed = 8, failure = Some (Returned ''hit shading failed''),
      final = \<lparr>world = 8, activeRayBuf = 1, draws = 2, swaps = 1\<rparr>,
      trace =
        [(RayPacketIntersectionQuery 0 16384, None), (ShadePrimaryRayMisses 0 0 16384, None),
         (ShadeHits 0 2 0 2 0 16384, None), (RayIntersectionTest 2 16384, None),
         (AccumulateEmissiveSamples 2 16384, None), (RayIntersectionQuery 1 16384, None),
         (ShadeIndirectRayMisses 0 1 16384, None),
         (ShadeHits 1 2 1 2 1 16384, Some ''hit shading failed'')]\<rparr>"
  by code_simp

section \<open>Properties of every call of a run\<close>

lemma keepsD:
  "keeps I P f \<Longrightarrow> I (activeRayBuf s) \<Longrightarrow> f s = (r, s', l)
   \<Longrightarrow> I (activeRayBuf s') \<and> list_all (\<lambda>(c, r). P c) l"
  by (auto simp: keeps_def split: prod.splits)

lemma keeps_skip: "keeps I P skip"
  by (simp add: keeps_def skip_def)

lemma keeps_invoke: "(\<And>s. I (activeRayBuf s) \<Longrightarrow> P (k s)) \<Longrightarrow> keeps I P (\<lambda>s. invoke h (k s) s)"
  by (simp add: keeps_def invoke_def perform_def split: prod.splits)

lemma keeps_invoke_const: "P c \<Longrightarrow> keeps I P (invoke h c)"
  by (simp add: keeps_def invoke_def perform_def split: prod.splits)

lemma keeps_newRGBA: "keeps I P (newRGBA frameW frameH)"
  by (simp add: keeps_def newRGBA_def)

lemma keeps_andThen:
  assumes "keeps I P (f :: 'w stage)" and "keeps I P g"
  shows "keeps I P (andThen f g)"
  unfolding keeps_def
proof (intro allI impI)
  fix s :: "'w istate"
  assume I: "I (activeRayBuf s)"
  obtain r s' l where f: "f s = (r, s', l)" by (cases "f s") auto
  obtain r2 s2 l2 where g: "g s' = (r2, s2, l2)" by (cases "g s'") auto
  from keepsD [OF assms(1) I f] have 1: "I (activeRayBuf s')" "list_all (\<lambda>(c, r). P c) l"
    by simp_all
  from keepsD [OF assms(2) 1(1) g] have 2: "I (activeRayBuf s2)" "list_all (\<lambda>(c, r). P c) l2"
    by simp_all
  show "case andThen f g s of (r, s', l) \<Rightarrow> I (activeRayBuf s') \<and> list_all (\<lambda>(c, r). P c) l"
    using f g 1 2 by (cases r) (simp_all add: andThen_def)
qed

lemma keeps_whenFlag: "keeps I P f \<Longrightarrow> keeps I P (whenFlag b f)"
  by (simp add: whenFlag_def keeps_skip)

lemma keeps_dumpDebugBuffer:
  assumes "dumpAllowed P"
  shows "keeps I P (dumpDebugBuffer (h :: 'w host) k frameW frameH imgFile)"
proof (cases k)
  case (Some e)
  then show ?thesis by (simp add: keeps_def dumpDebugBuffer_def)
next
  case None
  from assms have P: "P (OsCreate imgFile)" "P (DebugOutputReadData frameW frameH)"
    "P (PngEncode imgFile)" "P (FileClose imgFile)"
    by (simp_all add: dumpAllowed_def)
  show ?thesis
    unfolding keeps_def
  proof (intro allI impI)
    fix s :: "'w istate"
    assume I: "I (activeRayBuf s)"
    obtain r1 s1 l1 where c: "invoke h (OsCreate imgFile) s = (r1, s1, l1)"
      by (cases "invoke h (OsCreate imgFile) s") auto
    let ?mid = "andThen (newRGBA frameW frameH)
                  (andThen (invoke h (DebugOutputReadData frameW frameH))
                           (invoke h (PngEncode imgFile)))"
    obtain r2 s2 l2 where m: "?mid s1 = (r2, s2, l2)"
      by (cases "?mid s1") auto
    obtain r3 s3 l3 where f: "invoke h (FileClose imgFile) s2 = (r3, s3, l3)"
      by (cases "invoke h (FileClose imgFile) s2") auto
    from keepsD [OF keeps_invoke_const [of P "OsCreate imgFile" I h] I c] P
    have 1: "I (activeRayBuf s1)" "list_all (\<lambda>(c, r). P c) l1" by simp_all
    have "keeps I P ?mid"
      using P by (intro keeps_andThen keeps_invoke_const keeps_newRGBA)
    from keepsD [OF this 1(1) m]
    have 2: "I (activeRayBuf s2)" "list_all (\<lambda>(c, r). P c) l2" by simp_all
    from keepsD [OF keeps_invoke_const [of P "FileClose imgFile" I h] 2(1) f] P
    have 3: "I (activeRayBuf s3)" "list_all (\<lambda>(c, r). P c) l3" by simp_all
    show "case dumpDebugBuffer h k frameW frameH imgFile s of
            (r, s', l) \<Rightarrow> I (activeRayBuf s') \<and> list_all (\<lambda>(c, r). P c) l"
      using None c m f 1 2 3 by (cases r1) (simp_all add: dumpDebugBuffer_def)
  qed
qed

lemma keeps_debugCapture:
  assumes "dumpAllowed P" and "\<And>s. I (activeRayBuf s) \<Longrightarrow> P (k s)"
  shows "keeps I P (\<lambda>s. debugCapture (h :: 'w host) blockReq (k s) imgFile s)"
  unfolding keeps_def
proof (intro allI impI)
  fix s :: "'w istate"
  assume I: "I (activeRayBuf s)"
  obtain r1 s1 l1 where c: "perform h (k s) s = (r1, s1, l1)"
    by (cases "perform h (k s) s") auto
  obtain r2 s2 l2 where d: "dumpDebugBuffer h r1 (FrameW blockReq) (FrameH blockReq)
      imgFile s1 = (r2, s2, l2)"
    by (cases "dumpDebugBuffer h r1 (FrameW blockReq) (FrameH blockReq) imgFile s1") auto
  from c assms(2) [OF I] I
  have 1: "I (activeRayBuf s1)" "list_all (\<lambda>(c, r). P c) l1"
    by (auto simp: perform_def split: prod.splits)
  have "keeps I P (dumpDebugBuffer h r1 (FrameW blockReq) (FrameH blockReq) imgFile)"
    using assms(1) by (rule keeps_dumpDebugBuffer)
  from keepsD [OF this 1(1) d]
  have 2: "I (activeRayBuf s2)" "list_all (\<lambda>(c, r). P c) l2" by simp_all
  show "case debugCapture h blockReq (k s) imgFile s of
          (r, s', l) \<Rightarrow> I (activeRayBuf s') \<and> list_all (\<lambda>(c, r). P c) l"
    using c d 1 2 by (simp add: debugCapture_def)
qed

lemma keeps_debugCapture_const:
  "dumpAllowed P \<Longrightarrow> P k \<Longrightarrow> keeps I P (debugCapture h blockReq k imgFile)"
  using keeps_debugCapture [of P I "\<lambda>s. k" h blockReq imgFile] by simp

lemma keeps_bounceLoop:
  assumes body: "\<And>bounce. keeps I P (bounceBody h debugFlags tr blockReq bounce)"
  shows "keeps I P (bounceLoop h debugFlags tr blockReq bounce)"
proof -
  have "I (activeRayBuf s) \<Longrightarrow>
        (case bounceLoop h debugFlags tr blockReq bounce s of
           (r, s', l) \<Rightarrow> I (activeRayBuf s') \<and> list_all (\<lambda>(c, r). P c) l)" for s
    using body
  proof (induction h debugFlags tr blockReq bounce s rule: bounceLoop.induct)
    case (1 h debugFlags tr blockReq bounce s)
    show ?case
    proof (cases "bounce < NumBounces blockReq")
      case False
      with "1.prems"(1) show ?thesis by (simp add: bounceLoop.simps [of _ _ _ _ bounce])
    next
      case True
      obtain r1 s1 l1 where b: "bounceBody h debugFlags tr blockReq bounce s = (r1, s1, l1)"
        by (cases "bounceBody h debugFlags tr blockReq bounce s") auto
      from keepsD [OF "1.prems"(2) "1.prems"(1) b]
      have 1: "I (activeRayBuf s1)" "list_all (\<lambda>(c, r). P c) l1" by simp_all
      show ?thesis
      proof (cases r1)
        case (Some e)
        with True b 1 show ?thesis by (simp add: bounceLoop.simps [of _ _ _ _ bounce])
      next
        case None
        obtain r2 s2 l2 where
          n: "bounceLoop h debugFlags tr blockReq (bounce + 1) s1 = (r2, s2, l2)"
          by (cases "bounceLoop h debugFlags tr blockReq (bounce + 1) s1") auto
        from "1.IH" [OF True b [symmetric] None refl 1(1) "1.prems"(2)] n
        have "I (activeRayBuf s2)" "list_all (\<lambda>(c, r). P c) l2" by simp_all
        with True b None n 1 show ?thesis by (simp add: bounceLoop.simps [of _ _ _ _ bounce])
      qed
    qed
  qed
  then show ?thesis by (simp add: keeps_def)
qed

lemma dumpAllowed_bufferIndexOK: "dumpAllowed bufferIndexOK"
  by (simp add: dumpAllowed_def bufferIndexOK_def)


lemma dumpAllowed_not: "dumpAllowed (\<lambda>c. \<not> isMissShading c)" "dumpAllowed (\<lambda>c. \<not> isPacketQuery c)"
  by (simp_all add: dumpAllowed_def)

lemma pingPong_flip: "pingPong b \<Longrightarrow> pingPong (1 - b)"
  by (auto simp: pingPong_def)

lemma keeps_index_primaryIntersection:
  "keeps pingPong bufferIndexOK (primaryIntersection h tr blockReq)"
  by (auto simp: keeps_def primaryIntersection_def invoke_def perform_def bufferIndexOK_def pingPong_def
      split: prod.splits)

lemma keeps_index_shadeMisses: "keeps pingPong bufferIndexOK (shadeMisses h tr blockReq bounce)"
  by (auto simp: keeps_def shadeMisses_def invoke_def perform_def skip_def bufferIndexOK_def pingPong_def
      split: prod.splits)

lemma keeps_index_shadeHits: "keeps pingPong bufferIndexOK (shadeHits h tr blockReq bounce)"
  by (auto simp: keeps_def shadeHits_def invoke_def perform_def bufferIndexOK_def pingPong_def
      split: prod.splits)

lemma keeps_index_swapBuffers: "keeps pingPong bufferIndexOK (swapBuffers h blockReq bounce)"
  by (auto simp: keeps_def swapBuffers_def invoke_def perform_def skip_def bufferIndexOK_def pingPong_def
      split: prod.splits)

lemma keeps_index_bounceBody:
  "keeps pingPong bufferIndexOK (bounceBody h debugFlags tr blockReq bounce)"
  unfolding bounceBody_def
  by (intro keeps_andThen keeps_whenFlag keeps_debugCapture_const keeps_invoke_const
      keeps_index_shadeMisses keeps_index_shadeHits keeps_index_swapBuffers
      dumpAllowed_bufferIndexOK) (simp_all add: bufferIndexOK_def)

lemma keeps_index_integratorStages:
  "keeps pingPong bufferIndexOK (integratorStages h debugFlags tr blockReq)"
  unfolding integratorStages_def
  by (intro keeps_andThen keeps_whenFlag keeps_debugCapture keeps_bounceLoop
      keeps_index_primaryIntersection keeps_index_bounceBody dumpAllowed_bufferIndexOK)
     (simp_all add: bufferIndexOK_def pingPong_def)

lemma run_cases:
  obtains r s' l where
    "integratorStages h debugFlags tr blockReq
       \<lparr>world = w, activeRayBuf = 0, draws = 0, swaps = 0\<rparr> = (r, s', l)"
    "MonteCarloIntegrator h debugFlags tr blockReq w
       = \<lparr>elapsed = clock h (world s') - clock h w, failure = r, final = s', trace = l\<rparr>"
proof -
  obtain r s' l where
    run: "integratorStages h debugFlags tr blockReq
            \<lparr>world = w, activeRayBuf = 0, draws = 0, swaps = 0\<rparr> = (r, s', l)"
    by (cases "integratorStages h debugFlags tr blockReq
            \<lparr>world = w, activeRayBuf = 0, draws = 0, swaps = 0\<rparr>") auto
  then have "MonteCarloIntegrator h debugFlags tr blockReq w
       = \<lparr>elapsed = clock h (world s') - clock h w, failure = r, final = s', trace = l\<rparr>"
    by (simp add: MonteCarloIntegrator_def)
  with run that show ?thesis by blast
qed

lemma run_keeps:
  assumes "keeps I P (integratorStages h debugFlags tr blockReq)" and "I 0"
  shows "I (activeRayBuf (final (MonteCarloIntegrator h debugFlags tr blockReq w)))
    \<and> list_all P (map fst (trace (MonteCarloIntegrator h debugFlags tr blockReq w)))"
proof -
  obtain r s' l where
    run: "integratorStages h debugFlags tr blockReq
       \<lparr>world = w, activeRayBuf = 0, draws = 0, swaps = 0\<rparr> = (r, s', l)"
    and out: "MonteCarloIntegrator h debugFlags tr blockReq w
       = \<lparr>elapsed = clock h (world s') - clock h w, failure = r, final = s', trace = l\<rparr>"
    by (rule run_cases)
  from assms(2) have "I (activeRayBuf \<lparr>world = w, activeRayBuf = 0, draws = 0, swaps = 0\<rparr>)"
    by simp
  from keepsD [OF assms(1) this run]
  have "I (activeRayBuf s')" "list_all (\<lambda>(c, r). P c) l" by simp_all
  then show ?thesis
    unfolding out by (simp add: list_all_iff case_prod_beta)
qed

lemma run_bufferIndexOK:
  "pingPong (activeRayBuf (final (MonteCarloIntegrator h debugFlags tr blockReq w)))
   \<and> list_all bufferIndexOK (map fst (trace (MonteCarloIntegrator h debugFlags tr blockReq w)))"
  by (rule run_keeps [OF keeps_index_integratorStages]) (simp add: pingPong_def)

lemma occlusion_indices: "list_all bufferIndexOK cs \<Longrightarrow> set (List.map_filter occlusionBufferOf cs) \<subseteq> {2}"
  by (induction cs) (auto simp: List.map_filter_simps bufferIndexOK_def split: option.splits)

lemma active_indices: "list_all bufferIndexOK cs \<Longrightarrow> set (List.map_filter activeBufferOf cs) \<subseteq> {0, 1}"
  by (induction cs) (auto simp: List.map_filter_simps bufferIndexOK_def split: option.splits)

lemma keeps_nomiss_bounceBody:
  assumes "SceneDiffuseMatIndex tr = - 1"
  shows "keeps (\<lambda>b. True) (\<lambda>c. \<not> isMissShading c) (bounceBody h debugFlags tr blockReq bounce)"
proof -
  have 1: "keeps (\<lambda>b. True) (\<lambda>c. \<not> isMissShading c) (shadeMisses h tr blockReq bounce)"
    using assms by (simp add: keeps_def shadeMisses_def skip_def)
  have 2: "keeps (\<lambda>b. True) (\<lambda>c. \<not> isMissShading c) (shadeHits h tr blockReq bounce)"
    by (simp add: keeps_def shadeHits_def invoke_def perform_def split: prod.splits)
  have 3: "keeps (\<lambda>b. True) (\<lambda>c. \<not> isMissShading c) (swapBuffers h blockReq bounce)"
    by (simp add: keeps_def swapBuffers_def invoke_def perform_def skip_def split: prod.splits)
  show ?thesis
    unfolding bounceBody_def
    by (intro keeps_andThen keeps_whenFlag keeps_debugCapture_const keeps_invoke_const
        1 2 3 dumpAllowed_not) simp_all
qed

lemma keeps_nomiss_integratorStages:
  assumes "SceneDiffuseMatIndex tr = - 1"
  shows "keeps (\<lambda>b. True) (\<lambda>c. \<not> isMissShading c) (integratorStages h debugFlags tr blockReq)"
proof -
  have 1: "keeps (\<lambda>b. True) (\<lambda>c. \<not> isMissShading c) (primaryIntersection h tr blockReq)"
    by (simp add: keeps_def primaryIntersection_def invoke_def perform_def split: prod.splits)
  show ?thesis
    unfolding integratorStages_def
    by (intro keeps_andThen keeps_whenFlag keeps_debugCapture keeps_bounceLoop
        keeps_nomiss_bounceBody 1 dumpAllowed_not assms) simp_all
qed

lemma filter_none: "list_all (\<lambda>c. \<not> P c) cs \<Longrightarrow> filter P cs = []"
  by (induction cs) auto

lemma run_no_miss:
  assumes "SceneDiffuseMatIndex tr = - 1"
  shows "filter isMissShading (map fst (trace (MonteCarloIntegrator h debugFlags tr blockReq w))) = []"
  using run_keeps [OF keeps_nomiss_integratorStages [OF assms], of h debugFlags blockReq w]
  by (simp add: filter_none)

section \<open>A run without errors follows the schedule\<close>

lemma andThen_None:
  "andThen f g s = (None, s'', l) \<longleftrightarrow>
     (\<exists>s' l1 l2. f s = (None, s', l1) \<and> g s' = (None, s'', l2) \<and> l = l1 @ l2)"
  by (auto simp: andThen_def split: prod.splits option.splits)

lemma invoke_ok:
  "invoke h c s = (r, s', l) \<Longrightarrow> map fst l = [c] \<and> locals s' = locals s"
  by (auto simp: invoke_def perform_def locals_def split: prod.splits)

lemma perform_ok:
  "perform h c s = (r, s', l) \<Longrightarrow> map fst l = [c] \<and> locals s' = locals s"
  by (auto simp: perform_def locals_def split: prod.splits)

lemma dump_ok:
  assumes "dumpDebugBuffer h None frameW frameH imgFile s = (None, s', l)"
  shows "map fst l = [OsCreate imgFile, DebugOutputReadData frameW frameH, PngEncode imgFile,
            FileClose imgFile] \<and> locals s' = locals s"
  using assms
  by (auto simp: dumpDebugBuffer_def andThen_def newRGBA_def invoke_def perform_def locals_def
      split: prod.splits option.splits if_splits)

lemma capture_ok:
  assumes "debugCapture h blockReq k imgFile s = (None, s', l)"
  shows "map fst l = captureCalls blockReq k imgFile \<and> locals s' = locals s"
proof -
  obtain r1 s1 l1 where c: "perform h k s = (r1, s1, l1)"
    by (cases "perform h k s") auto
  from perform_ok [OF c] have l1: "map fst l1 = [k]" "locals s1 = locals s" by simp_all
  obtain l2 where d: "dumpDebugBuffer h r1 (FrameW blockReq) (FrameH blockReq) imgFile s1
      = (None, s', l2)" and l: "l = l1 @ l2"
    using assms c by (auto simp: debugCapture_def split: prod.splits)
  have r1: "r1 = None"
    using d by (cases r1) (simp_all add: dumpDebugBuffer_def)
  from dump_ok [OF d [unfolded r1]] l l1 show ?thesis
    by (simp add: captureCalls_def)
qed

lemma optional_capture_ok:
  assumes "whenFlag b (debugCapture h blockReq k imgFile) s = (None, s', l)"
  shows "map fst l = optionalCapture b blockReq k imgFile \<and> locals s' = locals s"
proof (cases b)
  case True
  with assms capture_ok [of h blockReq k imgFile s s' l] show ?thesis
    by (simp add: whenFlag_def optionalCapture_def)
next
  case False
  with assms show ?thesis by (auto simp: whenFlag_def optionalCapture_def skip_def)
qed

lemma shadeMisses_ok:
  assumes "shadeMisses h tr blockReq bounce s = (r, s', l)"
  shows "map fst l = missCalls tr blockReq bounce (activeRayBuf s) \<and> locals s' = locals s"
  using assms
  by (auto simp: shadeMisses_def missCalls_def skip_def dest!: invoke_ok split: if_splits)

lemma shadeHits_ok:
  assumes "shadeHits h tr blockReq bounce s = (r, s', l)"
  shows "map fst l = [ShadeHits bounce (MinBouncesForRR blockReq) (seeds h (draws s))
                        (numEmissives tr) (activeRayBuf s) (numPixels blockReq)]
         \<and> locals s' = (activeRayBuf s, Suc (draws s), swaps s)"
  using assms
  by (auto simp: shadeHits_def locals_def dest!: invoke_ok)

lemma swapBuffers_ok:
  assumes "swapBuffers h blockReq bounce s = (r, s', l)"
  shows "map fst l = swapCalls blockReq bounce (activeRayBuf s)
         \<and> locals s' = (if bounce + 1 < NumBounces blockReq
                         then (1 - activeRayBuf s, draws s, Suc (swaps s)) else locals s)"
  using assms
  by (auto simp: swapBuffers_def swapCalls_def skip_def locals_def dest!: invoke_ok
      split: if_splits)

lemma bounceBody_ok:
  assumes "bounceBody h debugFlags tr blockReq bounce s = (None, s', l)"
  shows "map fst l = bounceCalls debugFlags tr blockReq bounce (activeRayBuf s)
                       (seeds h (draws s))
         \<and> locals s' = (if bounce + 1 < NumBounces blockReq
                         then (1 - activeRayBuf s, Suc (draws s), Suc (swaps s))
                         else (activeRayBuf s, Suc (draws s), swaps s))"
proof -
  from assms obtain s1 l1 s2 l2 s3 l3 s4 l4 s5 l5 s6 l6 s7 l7 s8 l8 s9 l9 l10 where
    1: "shadeMisses h tr blockReq bounce s = (None, s1, l1)" and
    2: "shadeHits h tr blockReq bounce s1 = (None, s2, l2)" and
    3: "whenFlag (hasFlag debugFlags Throughput)
          (debugCapture h blockReq (DebugThroughput blockReq)
             (bounceFile ''throughput'' bounce)) s2 = (None, s3, l3)" and
    4: "invoke h (RayIntersectionTest 2 (numPixels blockReq)) s3 = (None, s4, l4)" and
    5: "invoke h (AccumulateEmissiveSamples 2 (numPixels blockReq)) s4 = (None, s5, l5)" and
    6: "whenFlag (hasFlag debugFlags AllEmissiveSamples)
          (debugCapture h blockReq (DebugEmissiveSamples blockReq 0 0)
             (bounceFile ''emissive-all'' bounce)) s5 = (None, s6, l6)" and
    7: "whenFlag (hasFlag debugFlags VisibleEmissiveSamples)
          (debugCapture h blockReq (DebugEmissiveSamples blockReq 1 0)
             (bounceFile ''emissive-vis'' bounce)) s6 = (None, s7, l7)" and
    8: "whenFlag (hasFlag debugFlags OccludedEmissiveSamples)
          (debugCapture h blockReq (DebugEmissiveSamples blockReq 0 1)
             (bounceFile ''emissive-occ'' bounce)) s7 = (None, s8, l8)" and
    9: "whenFlag (hasFlag debugFlags Accumulator)
          (debugCapture h blockReq (DebugAccumulator blockReq)
             (bounceFile ''accumulator'' bounce)) s8 = (None, s9, l9)" and
    10: "swapBuffers h blockReq bounce s9 = (None, s', l10)" and
    l: "l = l1 @ l2 @ l3 @ l4 @ l5 @ l6 @ l7 @ l8 @ l9 @ l10"
    unfolding bounceBody_def andThen_None by blast
  note f1 = shadeMisses_ok [OF 1] and f2 = shadeHits_ok [OF 2]
    and f3 = optional_capture_ok [OF 3] and f4 = invoke_ok [OF 4] and f5 = invoke_ok [OF 5]
    and f6 = optional_capture_ok [OF 6] and f7 = optional_capture_ok [OF 7]
    and f8 = optional_capture_ok [OF 8] and f9 = optional_capture_ok [OF 9]
    and f10 = swapBuffers_ok [OF 10]
  have s1: "activeRayBuf s1 = activeRayBuf s" "draws s1 = draws s" "swaps s1 = swaps s"
    using f1 by (simp_all add: locals_def)
  have s9: "locals s9 = (activeRayBuf s, Suc (draws s), swaps s)"
    using f2 f3 f4 f5 f6 f7 f8 f9 s1 by simp
  then have a9: "activeRayBuf s9 = activeRayBuf s" "draws s9 = Suc (draws s)"
    "swaps s9 = swaps s"
    by (simp_all add: locals_def)
  have "map fst l = bounceCalls debugFlags tr blockReq bounce (activeRayBuf s)
                       (seeds h (draws s))"
    unfolding l bounceCalls_def using f1 f2 f3 f4 f5 f6 f7 f8 f9 f10 s1 a9 by simp
  moreover have "locals s' = (if bounce + 1 < NumBounces blockReq
                         then (1 - activeRayBuf s, Suc (draws s), Suc (swaps s))
                         else (activeRayBuf s, Suc (draws s), swaps s))"
    using f10 s9 a9 by simp
  ultimately show ?thesis by simp
qed

lemma bufferAt_Suc: "bufferAt (Suc k) = 1 - bufferAt k"
  by (simp add: bufferAt_def)

lemma unat_next:
  fixes bounce :: "32 word"
  assumes "bounce < n"
  shows "unat (bounce + 1) = Suc (unat bounce)"
proof -
  from assms have "unat bounce < unat n" by (simp add: word_less_nat_alt)
  moreover have "unat n < 2 ^ 32"
    using unsigned_less [of n, where ?'a = nat] by simp
  ultimately have "(unat bounce + 1) mod 2 ^ 32 = unat bounce + 1" by simp
  then show ?thesis by (simp add: unat_word_ariths)
qed

lemma next_below:
  fixes bounce :: "32 word"
  assumes "bounce < n"
  shows "bounce + 1 < n \<longleftrightarrow> Suc (unat bounce) < unat n"
  using unat_next [OF assms] by (simp add: word_less_nat_alt)

lemma bounceLoop_ok:
  "bounceLoop h debugFlags tr blockReq bounce s = (None, s', l)
   \<Longrightarrow> activeRayBuf s = bufferAt (unat bounce) \<Longrightarrow> draws s = unat bounce
   \<Longrightarrow> map fst l = concat (map (\<lambda>b. bounceCalls debugFlags tr blockReq (word_of_nat b)
                                       (bufferAt b) (seeds h b))
                            [unat bounce..<unat (NumBounces blockReq)])
       \<and> swaps s' = swaps s + (unat (NumBounces blockReq) - 1 - unat bounce)
       \<and> (bounce < NumBounces blockReq
            \<longrightarrow> activeRayBuf s' = bufferAt (unat (NumBounces blockReq) - 1)
              \<and> draws s' = unat (NumBounces blockReq))"
proof (induction h debugFlags tr blockReq bounce s arbitrary: s' l rule: bounceLoop.induct)
  case (1 h debugFlags tr blockReq bounce s)
  show ?case
  proof (cases "bounce < NumBounces blockReq")
    case False
    then have "unat (NumBounces blockReq) \<le> unat bounce"
      by (simp add: word_less_nat_alt)
    with False "1.prems"(1) show ?thesis
      by (simp add: bounceLoop.simps [of _ _ _ _ bounce])
  next
    case True
    then have lt: "unat bounce < unat (NumBounces blockReq)"
      by (simp add: word_less_nat_alt)
    note nx = unat_next [OF True]
    obtain r1 s1 l1 where b: "bounceBody h debugFlags tr blockReq bounce s = (r1, s1, l1)"
      by (cases "bounceBody h debugFlags tr blockReq bounce s") auto
    obtain r2 s2 l2 where
      n: "bounceLoop h debugFlags tr blockReq (bounce + 1) s1 = (r2, s2, l2)"
      by (cases "bounceLoop h debugFlags tr blockReq (bounce + 1) s1") auto
    from "1.prems"(1) True b n have r1: "r1 = None" and r2: "r2 = None" and s2: "s2 = s'"
      and l: "l = l1 @ l2"
      by (auto simp: bounceLoop.simps [of _ _ _ _ bounce] split: option.splits)
    from bounceBody_ok [OF b [unfolded r1]] "1.prems"(2,3)
    have l1: "map fst l1 = bounceCalls debugFlags tr blockReq bounce (bufferAt (unat bounce))
                             (seeds h (unat bounce))"
      and loc: "locals s1 = (if bounce + 1 < NumBounces blockReq
                         then (1 - bufferAt (unat bounce), Suc (unat bounce), Suc (swaps s))
                         else (bufferAt (unat bounce), Suc (unat bounce), swaps s))"
      by simp_all
    show ?thesis
    proof (cases "bounce + 1 < NumBounces blockReq")
      case more: True
      with loc have a1: "activeRayBuf s1 = bufferAt (unat (bounce + 1))"
        and d1: "draws s1 = unat (bounce + 1)" and w1: "swaps s1 = Suc (swaps s)"
        by (simp_all add: locals_def nx bufferAt_Suc)
      from more True have lt2: "Suc (unat bounce) < unat (NumBounces blockReq)"
        by (simp add: next_below)
      from "1.IH" [OF True b [symmetric] r1 refl n [unfolded r2 s2] a1 d1] more
      have ih: "map fst l2 = concat (map (\<lambda>b. bounceCalls debugFlags tr blockReq (word_of_nat b)
                                       (bufferAt b) (seeds h b))
                            [Suc (unat bounce)..<unat (NumBounces blockReq)])"
        "swaps s' = swaps s1 + (unat (NumBounces blockReq) - 1 - Suc (unat bounce))"
        "activeRayBuf s' = bufferAt (unat (NumBounces blockReq) - 1)"
        "draws s' = unat (NumBounces blockReq)"
        by (simp_all add: nx)
      have "[unat bounce..<unat (NumBounces blockReq)]
            = unat bounce # [Suc (unat bounce)..<unat (NumBounces blockReq)]"
        using lt by (rule upt_conv_Cons)
      with l l1 ih w1 lt2 show ?thesis by simp
    next
      case last: False
      with True have eq: "Suc (unat bounce) = unat (NumBounces blockReq)"
        using lt by (simp add: next_below)
      from last loc have a1: "activeRayBuf s1 = bufferAt (unat bounce)"
        and d1: "draws s1 = Suc (unat bounce)" and w1: "swaps s1 = swaps s"
        by (simp_all add: locals_def)
      have "\<not> bounce + 1 < NumBounces blockReq" by (rule last)
      with n r2 s2 have "s1 = s'" "l2 = []"
        by (simp_all add: bounceLoop.simps [of _ _ _ _ "bounce + 1"])
      moreover have "[unat bounce..<unat (NumBounces blockReq)] = [unat bounce]"
        using eq [symmetric] by simp
      ultimately show ?thesis using l l1 a1 d1 w1 eq [symmetric] True by simp
    qed
  qed
qed

lemma optional_capture_active_ok:
  assumes "whenFlag b (\<lambda>s. debugCapture h blockReq (k (activeRayBuf s)) imgFile s) s
             = (None, s', l)"
  shows "map fst l = optionalCapture b blockReq (k (activeRayBuf s)) imgFile
         \<and> locals s' = locals s"
proof (cases b)
  case True
  with assms capture_ok [of h blockReq "k (activeRayBuf s)" imgFile s s' l] show ?thesis
    by (simp add: whenFlag_def optionalCapture_def)
next
  case False
  with assms show ?thesis by (auto simp: whenFlag_def optionalCapture_def skip_def)
qed

lemma primaryIntersection_ok:
  assumes "primaryIntersection h tr blockReq s = (r, s', l)"
  shows "map fst l = [if deviceType tr = GpuDevice
                      then RayPacketIntersectionQuery (activeRayBuf s) (numPixels blockReq)
                      else RayIntersectionQuery (activeRayBuf s) (numPixels blockReq)]
         \<and> locals s' = locals s"
  using assms by (auto simp: primaryIntersection_def dest!: invoke_ok split: if_splits)

lemma integratorStages_ok:
  assumes "integratorStages h debugFlags tr blockReq s = (None, s', l)"
    and "activeRayBuf s = 0" and "draws s = 0"
  shows "map fst l = schedule (seeds h) debugFlags tr blockReq
         \<and> swaps s' = swaps s + (unat (NumBounces blockReq) - 1)
         \<and> activeRayBuf s' = bufferAt (unat (NumBounces blockReq) - 1)
         \<and> draws s' = unat (NumBounces blockReq)"
proof -
  from assms(1) obtain s1 l1 s2 l2 s3 l3 l4 where
    1: "primaryIntersection h tr blockReq s = (None, s1, l1)" and
    2: "whenFlag (hasFlag debugFlags PrimaryRayIntersectionDepth)
          (\<lambda>s. debugCapture h blockReq (DebugRayIntersectionDepth blockReq (activeRayBuf s))
                  ''debug-primary-intersection-depth.png'' s) s1 = (None, s2, l2)" and
    3: "whenFlag (hasFlag debugFlags PrimaryRayIntersectionNormals)
          (\<lambda>s. debugCapture h blockReq (DebugRayIntersectionNormals blockReq (activeRayBuf s))
                  ''debug-primary-intersection-normals.png'' s) s2 = (None, s3, l3)" and
    4: "bounceLoop h debugFlags tr blockReq 0 s3 = (None, s', l4)" and
    l: "l = l1 @ l2 @ l3 @ l4"
    unfolding integratorStages_def andThen_None by blast
  note f1 = primaryIntersection_ok [OF 1]
    and f2 = optional_capture_active_ok [of _ h blockReq "DebugRayIntersectionDepth blockReq",
               OF 2]
    and f3 = optional_capture_active_ok [of _ h blockReq "DebugRayIntersectionNormals blockReq",
               OF 3]
  have loc: "locals s3 = locals s" using f1 f2 f3 by simp
  with assms(2,3) have s3: "activeRayBuf s3 = bufferAt (unat (0 :: 32 word))"
    "draws s3 = unat (0 :: 32 word)" "swaps s3 = swaps s"
    "activeRayBuf s1 = 0" "activeRayBuf s2 = 0"
    using f1 f2 by (simp_all add: locals_def bufferAt_def)
  note f4 = bounceLoop_ok [OF 4 s3(1) s3(2)]
  have calls: "map fst l = schedule (seeds h) debugFlags tr blockReq"
    unfolding l schedule_def primaryCalls_def using f1 f2 f3 f4 s3 assms(2) by simp
  have rest: "swaps s' = swaps s + (unat (NumBounces blockReq) - 1)"
    using f4 s3 by simp
  show ?thesis
  proof (cases "0 < NumBounces blockReq")
    case True
    with f4 calls rest show ?thesis by simp
  next
    case False
    then have z: "NumBounces blockReq = 0" by (simp add: word_gt_0)
    with 4 have "s' = s3" by (simp add: bounceLoop.simps [of _ _ _ _ 0])
    with z calls rest s3 show ?thesis by simp
  qed
qed

lemma run_ok:
  assumes "failure (MonteCarloIntegrator h debugFlags tr blockReq w) = None"
  shows "map fst (trace (MonteCarloIntegrator h debugFlags tr blockReq w))
           = schedule (seeds h) debugFlags tr blockReq
    \<and> swaps (final (MonteCarloIntegrator h debugFlags tr blockReq w))
           = unat (NumBounces blockReq) - 1
    \<and> activeRayBuf (final (MonteCarloIntegrator h debugFlags tr blockReq w))
           = bufferAt (unat (NumBounces blockReq) - 1)
    \<and> draws (final (MonteCarloIntegrator h debugFlags tr blockReq w))
           = unat (NumBounces blockReq)"
proof -
  obtain r s' l where
    run: "integratorStages h debugFlags tr blockReq
       \<lparr>world = w, activeRayBuf = 0, draws = 0, swaps = 0\<rparr> = (r, s', l)"
    and out: "MonteCarloIntegrator h debugFlags tr blockReq w
       = \<lparr>elapsed = clock h (world s') - clock h w, failure = r, final = s', trace = l\<rparr>"
    by (rule run_cases)
  from assms out have "r = None" by simp
  from integratorStages_ok [OF run [unfolded this]] show ?thesis
    unfolding out by simp
qed

section \<open>Kinds of calls in the schedule\<close>

lemma filter_optionalCapture:
  "dumpAllowed (\<lambda>c. \<not> P c) \<Longrightarrow> \<not> P k \<Longrightarrow> filter P (optionalCapture b blockReq k imgFile) = []"
  by (simp add: optionalCapture_def captureCalls_def dumpAllowed_def)

lemma map_filter_optionalCapture:
  "(\<And>c. isDebugCall c \<Longrightarrow> f c = None) \<Longrightarrow> isDebugCall k
   \<Longrightarrow> List.map_filter f (optionalCapture b blockReq k imgFile) = []"
  by (simp add: optionalCapture_def captureCalls_def List.map_filter_simps)

lemma dumpAllowed_occlusion: "dumpAllowed (\<lambda>c. \<not> isOcclusionStep c)"
  by (simp add: dumpAllowed_def)









lemma filter_occlusion_bounceCalls:
  "filter isOcclusionStep (bounceCalls debugFlags tr blockReq bounce active seed)
     = [RayIntersectionTest 2 (numPixels blockReq),
        AccumulateEmissiveSamples 2 (numPixels blockReq)]"
  by (simp add: bounceCalls_def filter_optionalCapture [OF dumpAllowed_occlusion]
      missCalls_def swapCalls_def)

lemma concat_replicate_end: "concat (replicate n xs) @ xs = xs @ concat (replicate n xs)"
  by (induction n) simp_all

lemma concat_map_const: "concat (map (\<lambda>b. xs) [i..<j]) = concat (replicate (j - i) xs)"
  by (induction j) (auto simp: Suc_diff_le concat_replicate_end)

lemma filter_occlusion_schedule:
  "filter isOcclusionStep (schedule sd debugFlags tr blockReq)
     = concat (replicate (unat (NumBounces blockReq))
         [RayIntersectionTest 2 (numPixels blockReq),
          AccumulateEmissiveSamples 2 (numPixels blockReq)])"
proof -
  have "filter isOcclusionStep (primaryCalls debugFlags tr blockReq) = []"
    by (simp add: primaryCalls_def filter_optionalCapture [OF dumpAllowed_occlusion])
  then show ?thesis
    using concat_map_const [of _ 0]
    by (simp add: schedule_def filter_concat comp_def filter_occlusion_bounceCalls)
qed

lemma filter_miss_bounceCalls:
  "filter isMissShading (bounceCalls debugFlags tr blockReq bounce active seed)
     = missCalls tr blockReq bounce active"
  by (simp add: bounceCalls_def filter_optionalCapture [OF dumpAllowed_not(1)]
      missCalls_def swapCalls_def)

lemma filter_miss_schedule:
  "filter isMissShading (schedule sd debugFlags tr blockReq)
     = concat (map (\<lambda>b. missCalls tr blockReq (word_of_nat b) (bufferAt b))
                 [0..<unat (NumBounces blockReq)])"
proof -
  have "filter isMissShading (primaryCalls debugFlags tr blockReq) = []"
    by (simp add: primaryCalls_def filter_optionalCapture [OF dumpAllowed_not(1)])
  then show ?thesis
    by (simp add: schedule_def filter_concat comp_def filter_miss_bounceCalls)
qed




section \<open>The number of swaps\<close>













section \<open>Runs that do not panic\<close>


lemma isPanic_Returned [simp]: "\<not> isPanic (map_option Returned err)"
  by (cases err) simp_all










section \<open>Runs without bounces\<close>

lemma schedule_zero:
  "NumBounces blockReq = 0 \<Longrightarrow> schedule sd debugFlags tr blockReq = primaryCalls debugFlags tr blockReq"
  by (simp add: schedule_def)







text \<open>
  On a frame of 4294967295 by 4294967295 pixels with a primary capture enabled, every call
  of the run returns \<^verbatim>\<open>nil\<close> and the run panics in \<^verbatim>\<open>image.NewRGBA\<close>, after the file was
  created and before the read-back; the deferred close runs.
\<close>

lemma huge_frame_run:
  "MonteCarloIntegrator okHost PrimaryRayIntersectionDepth scenarioTracer hugeFrameRequest 0
   = \<lparr>elapsed = 4,
      failure = Some (Panicked ''image: NewRGBA Rectangle has huge or negative dimensions''),
      final = \<lparr>world = 4, activeRayBuf = 0, draws = 0, swaps = 0\<rparr>,
      trace =
        [(RayPacketIntersectionQuery 0 4294967232, None),
         (DebugRayIntersectionDepth hugeFrameRequest 0, None),
         (OsCreate ''debug-primary-intersection-depth.png'', None),
         (FileClose ''debug-primary-intersection-depth.png'', None)]\<rparr>"
  by code_simp

lemma scenario_ok_run:
  "MonteCarloIntegrator okHost NoDebug scenarioTracer scenarioRequest 0
   = \<lparr>elapsed = 15, failure = None,
      final = \<lparr>world = 15, activeRayBuf = 0, draws = 3, swaps = 2\<rparr>,
      trace =
        [(RayPacketIntersectionQuery 0 16384, None), (ShadePrimaryRayMisses 0 0 16384, None),
         (ShadeHits 0 2 0 2 0 16384, None), (RayIntersectionTest 2 16384, None),
         (AccumulateEmissiveSamples 2 16384, None), (RayIntersectionQuery 1 16384, None),
         (ShadeIndirectRayMisses 0 1 16384, None), (ShadeHits 1 2 1 2 1 16384, None),
         (RayIntersectionTest 2 16384, None), (AccumulateEmissiveSamples 2 16384, None),
         (RayIntersectionQuery 0 16384, None), (ShadeIndirectRayMisses 0 0 16384, None),
         (ShadeHits 2 2 2 2 0 16384, None), (RayIntersectionTest 2 16384, None),
         (AccumulateEmissiveSamples 2 16384, None)]\<rparr>"
  by code_simp



section \<open>The miss shading of an iteration\<close>

lemma keeps_nomiss_shadeHits:
  "keeps (\<lambda>b. True) (\<lambda>c. \<not> isMissShading c) (shadeHits h tr blockReq bounce)"
  by (simp add: keeps_def shadeHits_def invoke_def perform_def split: prod.splits)

lemma keeps_nomiss_swapBuffers:
  "keeps (\<lambda>b. True) (\<lambda>c. \<not> isMissShading c) (swapBuffers h blockReq bounce)"
  by (simp add: keeps_def swapBuffers_def invoke_def perform_def skip_def split: prod.splits)

lemma bounceBody_after_misses:
  "\<exists>rest. bounceBody h debugFlags tr blockReq bounce
            = andThen (shadeMisses h tr blockReq bounce) rest
          \<and> keeps (\<lambda>b. True) (\<lambda>c. \<not> isMissShading c) rest"
  unfolding bounceBody_def
  by (rule exI, rule conjI, rule refl)
     (intro keeps_andThen keeps_whenFlag keeps_debugCapture_const keeps_invoke_const
        keeps_nomiss_shadeHits keeps_nomiss_swapBuffers dumpAllowed_not, simp_all)

lemma filter_miss_missCalls:
  "filter isMissShading (missCalls tr blockReq bounce active) = missCalls tr blockReq bounce active"
  by (simp add: missCalls_def)

lemma bounceBody_misses:
  assumes "bounceBody h debugFlags tr blockReq bounce s = (r, s', l)"
  shows "filter isMissShading (map fst l) = missCalls tr blockReq bounce (activeRayBuf s)"
proof -
  obtain rest where b: "bounceBody h debugFlags tr blockReq bounce
            = andThen (shadeMisses h tr blockReq bounce) rest"
    and k: "keeps (\<lambda>b. True) (\<lambda>c. \<not> isMissShading c) rest"
    using bounceBody_after_misses by blast
  obtain r1 s1 l1 where m: "shadeMisses h tr blockReq bounce s = (r1, s1, l1)"
    by (cases "shadeMisses h tr blockReq bounce s") auto
  from shadeMisses_ok [OF m]
  have l1: "map fst l1 = missCalls tr blockReq bounce (activeRayBuf s)" by simp
  show ?thesis
  proof (cases r1)
    case (Some e)
    with assms b m have "l = l1" by (simp add: andThen_def)
    with l1 show ?thesis by (simp add: filter_miss_missCalls)
  next
    case None
    obtain r2 s2 l2 where g: "rest s1 = (r2, s2, l2)" by (cases "rest s1") auto
    from keepsD [OF k _ g] have "list_all (\<lambda>(c, r). \<not> isMissShading c) l2" by simp
    then have "filter isMissShading (map fst l2) = []"
      by (intro filter_none) (simp add: list_all_iff case_prod_beta)
    moreover from assms b m None g have "l = l1 @ l2" by (simp add: andThen_def)
    ultimately show ?thesis using l1 by (simp add: filter_miss_missCalls)
  qed
qed

lemma word_of_nat_zero:
  fixes n :: "32 word"
  assumes "b < unat n"
  shows "(word_of_nat b :: 32 word) = 0 \<longleftrightarrow> b = 0"
proof -
  have "unat n < 2 ^ 32"
    using unsigned_less [of n, where ?'a = nat] by simp
  with assms have "b < 2 ^ 32" by simp
  then have u: "unat (word_of_nat b :: 32 word) = b"
    by (simp add: unat_of_nat)
  show ?thesis
  proof
    assume "(word_of_nat b :: 32 word) = 0"
    then have "unat (word_of_nat b :: 32 word) = unat (0 :: 32 word)" by simp
    with u show "b = 0" by simp
  next
    assume "b = 0"
    then show "(word_of_nat b :: 32 word) = 0" by simp
  qed
qed

lemma concat_map_single: "concat (map (\<lambda>b. [g b]) xs) = map g xs"
  by (induction xs) simp_all

lemma miss_schedule_background:
  assumes "SceneDiffuseMatIndex tr \<noteq> - 1"
  shows "concat (map (\<lambda>b. missCalls tr blockReq (word_of_nat b) (bufferAt b))
                   [0..<unat (NumBounces blockReq)])
    = map (\<lambda>b. if b = 0
                then ShadePrimaryRayMisses (word_of_int (SceneDiffuseMatIndex tr)) 0
                       (numPixels blockReq)
                else ShadeIndirectRayMisses (word_of_int (SceneDiffuseMatIndex tr))
                       (bufferAt b) (numPixels blockReq))
        [0..<unat (NumBounces blockReq)]"
proof -
  have "missCalls tr blockReq (word_of_nat b) (bufferAt b)
        = [if b = 0
           then ShadePrimaryRayMisses (word_of_int (SceneDiffuseMatIndex tr)) 0
                  (numPixels blockReq)
           else ShadeIndirectRayMisses (word_of_int (SceneDiffuseMatIndex tr))
                  (bufferAt b) (numPixels blockReq)]"
    if "b \<in> set [0..<unat (NumBounces blockReq)]" for b
  proof -
    from that have "b < unat (NumBounces blockReq)" by simp
    from word_of_nat_zero [OF this] assms show ?thesis
      by (simp add: missCalls_def bufferAt_def)
  qed
  then have "map (\<lambda>b. missCalls tr blockReq (word_of_nat b) (bufferAt b))
                   [0..<unat (NumBounces blockReq)]
    = map (\<lambda>b. [if b = 0
                then ShadePrimaryRayMisses (word_of_int (SceneDiffuseMatIndex tr)) 0
                       (numPixels blockReq)
                else ShadeIndirectRayMisses (word_of_int (SceneDiffuseMatIndex tr))
                       (bufferAt b) (numPixels blockReq)])
        [0..<unat (NumBounces blockReq)]"
    by (intro map_cong refl)
  then have "concat (map (\<lambda>b. missCalls tr blockReq (word_of_nat b) (bufferAt b))
                   [0..<unat (NumBounces blockReq)])
    = concat (map (\<lambda>b. [if b = 0
                then ShadePrimaryRayMisses (word_of_int (SceneDiffuseMatIndex tr)) 0
                       (numPixels blockReq)
                else ShadeIndirectRayMisses (word_of_int (SceneDiffuseMatIndex tr))
                       (bufferAt b) (numPixels blockReq)])
        [0..<unat (NumBounces blockReq)])"
    by (rule arg_cong)
  then show ?thesis
    by (simp only: concat_map_single)
qed

lemma no_background_run:
  "MonteCarloIntegrator okHost NoDebug noBackgroundTracer scenarioRequest 0
   = \<lparr>elapsed = 12, failure = None,
      final = \<lparr>world = 12, activeRayBuf = 0, draws = 3, swaps = 2\<rparr>,
      trace =
        [(RayPacketIntersectionQuery 0 16384, None),
         (ShadeHits 0 2 0 2 0 16384, None), (RayIntersectionTest 2 16384, None),
         (AccumulateEmissiveSamples 2 16384, None), (RayIntersectionQuery 1 16384, None),
         (ShadeHits 1 2 1 2 1 16384, None),
         (RayIntersectionTest 2 16384, None), (AccumulateEmissiveSamples 2 16384, None),
         (RayIntersectionQuery 0 16384, None),
         (ShadeHits 2 2 2 2 0 16384, None), (RayIntersectionTest 2 16384, None),
         (AccumulateEmissiveSamples 2 16384, None)]\<rparr>"
  by code_simp

lemma mid_run_body:
  "bounceBody okHost NoDebug scenarioTracer scenarioRequest 1 midRunState
   = (None, \<lparr>world = 11, activeRayBuf = 0, draws = 2, swaps = 2\<rparr>,
      [(ShadeIndirectRayMisses 0 1 16384, None), (ShadeHits 1 2 1 2 1 16384, None),
       (RayIntersectionTest 2 16384, None), (AccumulateEmissiveSamples 2 16384, None),
       (RayIntersectionQuery 0 16384, None)])"
  by code_simp

section \<open>The calls of a buffer dump\<close>

lemma dump_shapes:
  assumes "dumpDebugBuffer h None frameW frameH imgFile s = (r, s', l)"
  shows "map fst l = [OsCreate imgFile] \<and> (\<exists>e'. r = Some (Returned e'))
       \<or> map fst l = [OsCreate imgFile, FileClose imgFile]
           \<and> imageTooLarge frameW frameH \<and> (\<exists>m. r = Some (Panicked m))
       \<or> map fst l = [OsCreate imgFile, DebugOutputReadData frameW frameH, FileClose imgFile]
           \<and> \<not> imageTooLarge frameW frameH \<and> (\<exists>e'. r = Some (Returned e'))
       \<or> map fst l = [OsCreate imgFile, DebugOutputReadData frameW frameH, PngEncode imgFile,
                         FileClose imgFile]
           \<and> \<not> imageTooLarge frameW frameH \<and> (r = None \<or> (\<exists>e'. r = Some (Returned e')))"
  using assms
  by (auto simp: dumpDebugBuffer_def andThen_def newRGBA_def invoke_def perform_def
      split: prod.splits option.splits if_splits)

lemma dump_after_kernel_error:
  "dumpDebugBuffer h (Some e) frameW frameH imgFile s = (Some (Returned e), s, [])"
  by (simp add: dumpDebugBuffer_def)

lemma dump_kernel_ok:
  assumes "dumpDebugBuffer h k frameW frameH imgFile s = (r, s', l)"
    and "l \<noteq> [] \<or> r \<noteq> map_option Returned k"
  shows "k = None"
  using assms by (cases k) (auto simp: dumpDebugBuffer_def)

lemma readback_failure_dump:
  "dumpDebugBuffer (countingHost readbackFailure) None 256 256 ''debug-throughput-000.png''
     midRunState
   = (Some (Returned ''readback failed''),
      \<lparr>world = 9, activeRayBuf = 1, draws = 1, swaps = 1\<rparr>,
      [(OsCreate ''debug-throughput-000.png'', None),
       (DebugOutputReadData 256 256, Some ''readback failed''),
       (FileClose ''debug-throughput-000.png'', None)])"
  by code_simp

text \<open>
  A dump of a frame of 4294967295 by 4294967295 pixels on a device that never fails: the
  file is created, \<^verbatim>\<open>image.NewRGBA\<close> panics, and the deferred close runs.
\<close>

lemma huge_frame_dump:
  "dumpDebugBuffer okHost None 4294967295 4294967295 ''debug-throughput-000.png'' midRunState
   = (Some (Panicked ''image: NewRGBA Rectangle has huge or negative dimensions''),
      \<lparr>world = 8, activeRayBuf = 1, draws = 1, swaps = 1\<rparr>,
      [(OsCreate ''debug-throughput-000.png'', None),
       (FileClose ''debug-throughput-000.png'', None)])"
  by code_simp

section \<open>Debug captures and the production path\<close>



























section \<open>The two intersection queries\<close>

lemma concat_packets: "0 < packetSize \<Longrightarrow> concat (packets packetSize xs) = xs"
proof (induction packetSize xs rule: packets.induct)
  case (1 packetSize xs)
  show ?case
  proof (cases "xs = []")
    case True
    then show ?thesis by (simp add: packets.simps [of packetSize "[]"])
  next
    case False
    with "1.prems" have n: "\<not> (packetSize = 0 \<or> xs = [])" by simp
    from "1.IH" [OF n "1.prems"]
    have "concat (packets packetSize (drop packetSize xs)) = drop packetSize xs" .
    with n show ?thesis by (simp add: packets.simps [of packetSize xs])
  qed
qed

lemma packet_query_eq:
  assumes "0 < packetSize"
  shows "packetQuery packetSize intersect rays count = perRayQuery intersect rays count"
proof -
  have "concat (map (map intersect) (packets packetSize (take count rays)))
        = map intersect (concat (packets packetSize (take count rays)))"
    by (simp add: map_concat)
  with concat_packets [OF assms, of "take count rays"] show ?thesis
    by (simp add: packetQuery_def perRayQuery_def)
qed

section \<open>The device type and the primary query\<close>

lemma shadeMisses_deviceType:
  "shadeMisses h (tr\<lparr>deviceType := d\<rparr>) blockReq bounce = shadeMisses h tr blockReq bounce"
  by (rule ext) (simp add: shadeMisses_def)

lemma shadeHits_deviceType:
  "shadeHits h (tr\<lparr>deviceType := d\<rparr>) blockReq bounce = shadeHits h tr blockReq bounce"
  by (rule ext) (simp add: shadeHits_def numEmissives_def)

lemma bounceBody_deviceType:
  "bounceBody h debugFlags (tr\<lparr>deviceType := d\<rparr>) blockReq bounce
     = bounceBody h debugFlags tr blockReq bounce"
  by (simp add: bounceBody_def shadeMisses_deviceType shadeHits_deviceType)

lemma bounceLoop_deviceType:
  "bounceLoop h debugFlags (tr\<lparr>deviceType := d\<rparr>) blockReq bounce s
     = bounceLoop h debugFlags tr blockReq bounce s"
proof (induction h debugFlags tr blockReq bounce s rule: bounceLoop.induct)
  case (1 h debugFlags tr blockReq bounce s)
  show ?case
  proof (cases "bounce < NumBounces blockReq")
    case False
    then show ?thesis
      by (simp add: bounceLoop.simps [of _ _ _ _ bounce])
  next
    case True
    obtain r1 s1 l1 where b: "bounceBody h debugFlags tr blockReq bounce s = (r1, s1, l1)"
      by (cases "bounceBody h debugFlags tr blockReq bounce s") auto
    show ?thesis
    proof (cases r1)
      case (Some e)
      with True b show ?thesis
        by (simp add: bounceLoop.simps [of _ _ _ _ bounce] bounceBody_deviceType)
    next
      case None
      from "1.IH" [OF True b [symmetric] None refl]
      have "bounceLoop h debugFlags (tr\<lparr>deviceType := d\<rparr>) blockReq (bounce + 1) s1
            = bounceLoop h debugFlags tr blockReq (bounce + 1) s1" .
      with True b None show ?thesis
        by (simp add: bounceLoop.simps [of _ _ _ _ bounce] bounceBody_deviceType)
    qed
  qed
qed

lemma keeps_nopacket_bounceBody:
  "keeps (\<lambda>b. True) (\<lambda>c. \<not> isPacketQuery c) (bounceBody h debugFlags tr blockReq bounce)"
proof -
  have 1: "keeps (\<lambda>b. True) (\<lambda>c. \<not> isPacketQuery c) (shadeMisses h tr blockReq bounce)"
    by (simp add: keeps_def shadeMisses_def invoke_def perform_def skip_def split: prod.splits)
  have 2: "keeps (\<lambda>b. True) (\<lambda>c. \<not> isPacketQuery c) (shadeHits h tr blockReq bounce)"
    by (simp add: keeps_def shadeHits_def invoke_def perform_def split: prod.splits)
  have 3: "keeps (\<lambda>b. True) (\<lambda>c. \<not> isPacketQuery c) (swapBuffers h blockReq bounce)"
    by (simp add: keeps_def swapBuffers_def invoke_def perform_def skip_def split: prod.splits)
  show ?thesis
    unfolding bounceBody_def
    by (intro keeps_andThen keeps_whenFlag keeps_debugCapture_const keeps_invoke_const
        1 2 3 dumpAllowed_not) simp_all
qed

lemma integratorStages_after_primary:
  "\<exists>rest. integratorStages h debugFlags tr blockReq
            = andThen (primaryIntersection h tr blockReq) rest
          \<and> keeps (\<lambda>b. True) (\<lambda>c. \<not> isPacketQuery c) rest
          \<and> (\<forall>d. integratorStages h debugFlags (tr\<lparr>deviceType := d\<rparr>) blockReq
                 = andThen (primaryIntersection h (tr\<lparr>deviceType := d\<rparr>) blockReq) rest)"
proof -
  have "bounceLoop h debugFlags (tr\<lparr>deviceType := d\<rparr>) blockReq 0
        = bounceLoop h debugFlags tr blockReq 0" for d
    by (rule ext) (rule bounceLoop_deviceType)
  then have "\<forall>d. integratorStages h debugFlags (tr\<lparr>deviceType := d\<rparr>) blockReq
                 = andThen (primaryIntersection h (tr\<lparr>deviceType := d\<rparr>) blockReq)
    (andThen (whenFlag (hasFlag debugFlags PrimaryRayIntersectionDepth)
                (\<lambda>s. debugCapture h blockReq
                        (DebugRayIntersectionDepth blockReq (activeRayBuf s))
                        ''debug-primary-intersection-depth.png'' s))
    (andThen (whenFlag (hasFlag debugFlags PrimaryRayIntersectionNormals)
                (\<lambda>s. debugCapture h blockReq
                        (DebugRayIntersectionNormals blockReq (activeRayBuf s))
                        ''debug-primary-intersection-normals.png'' s))
             (bounceLoop h debugFlags tr blockReq 0)))"
    by (simp add: integratorStages_def)
  moreover have "keeps (\<lambda>b. True) (\<lambda>c. \<not> isPacketQuery c)
    (andThen (whenFlag (hasFlag debugFlags PrimaryRayIntersectionDepth)
                (\<lambda>s. debugCapture h blockReq
                        (DebugRayIntersectionDepth blockReq (activeRayBuf s))
                        ''debug-primary-intersection-depth.png'' s))
    (andThen (whenFlag (hasFlag debugFlags PrimaryRayIntersectionNormals)
                (\<lambda>s. debugCapture h blockReq
                        (DebugRayIntersectionNormals blockReq (activeRayBuf s))
                        ''debug-primary-intersection-normals.png'' s))
             (bounceLoop h debugFlags tr blockReq 0)))"
    by (intro keeps_andThen keeps_whenFlag keeps_debugCapture keeps_bounceLoop
        keeps_nopacket_bounceBody dumpAllowed_not) simp_all
  ultimately show ?thesis
    unfolding integratorStages_def by blast
qed

lemma primary_then_no_packet:
  "trace (MonteCarloIntegrator h debugFlags tr blockReq w) \<noteq> []
   \<and> fst (hd (trace (MonteCarloIntegrator h debugFlags tr blockReq w)))
       = (if deviceType tr = GpuDevice then RayPacketIntersectionQuery 0 (numPixels blockReq)
          else RayIntersectionQuery 0 (numPixels blockReq))
   \<and> filter isPacketQuery
        (map fst (tl (trace (MonteCarloIntegrator h debugFlags tr blockReq w)))) = []"
proof -
  let ?s0 = "\<lparr>world = w, activeRayBuf = 0, draws = 0, swaps = 0\<rparr>"
  obtain rest where i: "integratorStages h debugFlags tr blockReq
            = andThen (primaryIntersection h tr blockReq) rest"
    and k: "keeps (\<lambda>b. True) (\<lambda>c. \<not> isPacketQuery c) rest"
    using integratorStages_after_primary by blast
  obtain r1 s1 l1 where p: "primaryIntersection h tr blockReq ?s0 = (r1, s1, l1)"
    by (cases "primaryIntersection h tr blockReq ?s0") auto
  then have l1: "l1 \<noteq> []" "fst (hd l1) = (if deviceType tr = GpuDevice
                        then RayPacketIntersectionQuery 0 (numPixels blockReq)
                        else RayIntersectionQuery 0 (numPixels blockReq))" "tl l1 = []"
    by (auto simp: primaryIntersection_def invoke_def perform_def split: if_splits prod.splits)
  obtain r2 s2 l2 where g: "rest s1 = (r2, s2, l2)" by (cases "rest s1") auto
  from keepsD [OF k _ g] have "list_all (\<lambda>(c, r). \<not> isPacketQuery c) l2" by simp
  then have l2: "filter isPacketQuery (map fst l2) = []"
    by (intro filter_none) (simp add: list_all_iff case_prod_beta)
  have "trace (MonteCarloIntegrator h debugFlags tr blockReq w)
          = (case r1 of Some e \<Rightarrow> l1 | None \<Rightarrow> l1 @ l2)"
    using p g by (cases r1) (simp_all add: MonteCarloIntegrator_def i andThen_def)
  with l1 l2 show ?thesis by (cases r1) simp_all
qed


section \<open>Runs from alike states\<close>

lemma mirrorsD:
  assumes "mirrors view f" and "alike view s1 s2"
    and "f s1 = (r1, s1', l1)" and "f s2 = (r2, s2', l2)"
  shows "r1 = r2 \<and> l1 = l2 \<and> alike view s1' s2'"
  using assms unfolding mirrors_def by fastforce

lemma mirrorsI:
  assumes "\<And>s1 s2 r1 s1' l1 r2 s2' l2. alike view s1 s2 \<Longrightarrow> (f :: 'w stage) s1 = (r1, s1', l1)
             \<Longrightarrow> f s2 = (r2, s2', l2) \<Longrightarrow> r1 = r2 \<and> l1 = l2 \<and> alike view s1' s2'"
  shows "mirrors view f"
  unfolding mirrors_def
proof (intro allI impI)
  fix s1 s2 :: "'w istate"
  assume al: "alike view s1 s2"
  obtain r1 s1' l1 where 1: "f s1 = (r1, s1', l1)" by (cases "f s1") auto
  obtain r2 s2' l2 where 2: "f s2 = (r2, s2', l2)" by (cases "f s2") auto
  from assms [OF al 1 2] 1 2
  show "fst (f s1) = fst (f s2) \<and> snd (snd (f s1)) = snd (snd (f s2))
        \<and> alike view (fst (snd (f s1))) (fst (snd (f s2)))"
    by simp
qed

lemma perform_mirror:
  assumes vd: "viewDetermined h view" and v: "view (world s1) = view (world s2)"
    and 1: "perform h c s1 = (e1, s1', l1)" and 2: "perform h c s2 = (e2, s2', l2)"
  shows "e1 = e2 \<and> l1 = l2 \<and> view (world s1') = view (world s2')
         \<and> locals s1' = locals s1 \<and> locals s2' = locals s2"
proof -
  from vd v have "fst (dev h c (world s1)) = fst (dev h c (world s2))
      \<and> view (snd (dev h c (world s1))) = view (snd (dev h c (world s2)))"
    unfolding viewDetermined_def by blast
  with 1 2 show ?thesis
    by (auto simp: perform_def locals_def split: prod.splits)
qed

lemma mirrors_invoke:
  assumes vd: "viewDetermined (h :: 'w host) view"
    and u: "\<And>s. locals (u s) = upd (locals s)" "\<And>s. world (u s) = world s"
  shows "mirrors view (\<lambda>s. invoke h (k (locals s)) (u s))"
proof (rule mirrorsI)
  fix s1 s2 :: "'w istate" and r1 s1' l1 r2 s2' l2
  assume al: "alike view s1 s2"
    and 1: "invoke h (k (locals s1)) (u s1) = (r1, s1', l1)"
    and 2: "invoke h (k (locals s2)) (u s2) = (r2, s2', l2)"
  from al have v: "view (world (u s1)) = view (world (u s2))" and lo: "locals s1 = locals s2"
    by (simp_all add: alike_def u)
  obtain e1 m1 la where p1: "perform h (k (locals s1)) (u s1) = (e1, m1, la)"
    by (cases "perform h (k (locals s1)) (u s1)") auto
  obtain e2 m2 lb where p2: "perform h (k (locals s1)) (u s2) = (e2, m2, lb)"
    by (cases "perform h (k (locals s1)) (u s2)") auto
  from perform_mirror [OF vd v p1 p2]
  have "e1 = e2" "la = lb" "view (world m1) = view (world m2)"
    "locals m1 = locals (u s1)" "locals m2 = locals (u s2)"
    by simp_all
  with 1 2 p1 p2 lo u(1) [of s1] u(1) [of s2]
  show "r1 = r2 \<and> l1 = l2 \<and> alike view s1' s2'"
    by (auto simp: invoke_def alike_def)
qed

lemma mirrors_invoke_const:
  "viewDetermined h view \<Longrightarrow> mirrors view (invoke h c)"
  using mirrors_invoke [of h view "\<lambda>s. s" "\<lambda>v. v" "\<lambda>v. c"] by simp

lemma mirrors_active:
  assumes "viewDetermined h view"
  shows "mirrors view (\<lambda>s. invoke h (k (activeRayBuf s)) s)"
proof -
  have "mirrors view (\<lambda>s. invoke h ((\<lambda>(a, d, n). k a) (locals s)) s)"
    by (rule mirrors_invoke [OF assms, where upd = "\<lambda>v. v"]) simp_all
  then show ?thesis by (simp add: locals_def)
qed

lemma mirrors_skip: "mirrors view skip"
  by (simp add: mirrors_def skip_def)

lemma mirrors_newRGBA: "mirrors view (newRGBA frameW frameH)"
  by (simp add: mirrors_def newRGBA_def)

lemma mirrors_whenFlag: "mirrors view f \<Longrightarrow> mirrors view (whenFlag b f)"
  by (simp add: whenFlag_def mirrors_skip)

lemma mirrors_andThen:
  assumes "mirrors view (f :: 'w stage)" and "mirrors view g"
  shows "mirrors view (andThen f g)"
proof (rule mirrorsI)
  fix s1 s2 :: "'w istate" and r1 s1' l1 r2 s2' l2
  assume al: "alike view s1 s2"
    and 1: "andThen f g s1 = (r1, s1', l1)" and 2: "andThen f g s2 = (r2, s2', l2)"
  obtain ra ma la where fa: "f s1 = (ra, ma, la)" by (cases "f s1") auto
  obtain rb mb lb where fb: "f s2 = (rb, mb, lb)" by (cases "f s2") auto
  from mirrorsD [OF assms(1) al fa fb]
  have e: "ra = rb" "la = lb" and alm: "alike view ma mb" by simp_all
  obtain rc mc lc where ga: "g ma = (rc, mc, lc)" by (cases "g ma") auto
  obtain rd md ld where gb: "g mb = (rd, md, ld)" by (cases "g mb") auto
  from mirrorsD [OF assms(2) alm ga gb]
  have e2: "rc = rd" "lc = ld" and alg: "alike view mc md" by simp_all
  from 1 2 fa fb ga gb e e2 alm alg show "r1 = r2 \<and> l1 = l2 \<and> alike view s1' s2'"
    by (cases ra) (auto simp: andThen_def)
qed

lemma mirrors_dumpDebugBuffer:
  assumes vd: "viewDetermined h view"
  shows "mirrors view (dumpDebugBuffer (h :: 'w host) k frameW frameH imgFile)"
proof (cases k)
  case (Some e)
  then show ?thesis by (simp add: mirrors_def dumpDebugBuffer_def)
next
  case None
  let ?mid = "andThen (newRGBA frameW frameH)
                (andThen (invoke h (DebugOutputReadData frameW frameH))
                         (invoke h (PngEncode imgFile)))"
  have mid: "mirrors view ?mid"
    by (intro mirrors_andThen mirrors_invoke_const mirrors_newRGBA vd)
  show ?thesis
  proof (rule mirrorsI)
    fix s1 s2 :: "'w istate" and r1 s1' l1 r2 s2' l2
    assume al: "alike view s1 s2"
      and 1: "dumpDebugBuffer h k frameW frameH imgFile s1 = (r1, s1', l1)"
      and 2: "dumpDebugBuffer h k frameW frameH imgFile s2 = (r2, s2', l2)"
    obtain ra ma la where ca: "invoke h (OsCreate imgFile) s1 = (ra, ma, la)"
      by (cases "invoke h (OsCreate imgFile) s1") auto
    obtain rb mb lb where cb: "invoke h (OsCreate imgFile) s2 = (rb, mb, lb)"
      by (cases "invoke h (OsCreate imgFile) s2") auto
    from mirrorsD [OF mirrors_invoke_const [OF vd] al ca cb]
    have e: "ra = rb" "la = lb" and alm: "alike view ma mb" by simp_all
    obtain rc mc lc where ma: "?mid ma = (rc, mc, lc)" by (cases "?mid ma") auto
    obtain rd md ld where mb: "?mid mb = (rd, md, ld)" by (cases "?mid mb") auto
    from mirrorsD [OF mid alm ma mb]
    have e2: "rc = rd" "lc = ld" and aln: "alike view mc md" by simp_all
    obtain re me le where fa: "invoke h (FileClose imgFile) mc = (re, me, le)"
      by (cases "invoke h (FileClose imgFile) mc") auto
    obtain rf mf lf where fb: "invoke h (FileClose imgFile) md = (rf, mf, lf)"
      by (cases "invoke h (FileClose imgFile) md") auto
    from mirrorsD [OF mirrors_invoke_const [OF vd] aln fa fb]
    have e3: "le = lf" and alf: "alike view me mf" by simp_all
    from 1 2 None ca cb ma mb fa fb e e2 e3 alm alf
    show "r1 = r2 \<and> l1 = l2 \<and> alike view s1' s2'"
      by (cases ra) (auto simp: dumpDebugBuffer_def)
  qed
qed

lemma mirrors_debugCapture:
  assumes vd: "viewDetermined h view"
  shows "mirrors view (\<lambda>s. debugCapture (h :: 'w host) blockReq (k (activeRayBuf s)) imgFile s)"
proof (rule mirrorsI)
  fix s1 s2 :: "'w istate" and r1 s1' l1 r2 s2' l2
  assume al: "alike view s1 s2"
    and 1: "debugCapture h blockReq (k (activeRayBuf s1)) imgFile s1 = (r1, s1', l1)"
    and 2: "debugCapture h blockReq (k (activeRayBuf s2)) imgFile s2 = (r2, s2', l2)"
  from al have v: "view (world s1) = view (world s2)" and lo: "locals s1 = locals s2"
    by (simp_all add: alike_def)
  from lo have a: "activeRayBuf s2 = activeRayBuf s1" by (simp add: locals_def)
  let ?c = "k (activeRayBuf s1)"
  obtain e1 m1 la where p1: "perform h ?c s1 = (e1, m1, la)"
    by (cases "perform h ?c s1") auto
  obtain e2 m2 lb where p2: "perform h ?c s2 = (e2, m2, lb)"
    by (cases "perform h ?c s2") auto
  from perform_mirror [OF vd v p1 p2] lo
  have e: "e1 = e2" "la = lb" and alm: "alike view m1 m2"
    by (simp_all add: alike_def)
  obtain rc mc lc where
    da: "dumpDebugBuffer h e1 (FrameW blockReq) (FrameH blockReq) imgFile m1 = (rc, mc, lc)"
    by (cases "dumpDebugBuffer h e1 (FrameW blockReq) (FrameH blockReq) imgFile m1") auto
  obtain rd md ld where
    db: "dumpDebugBuffer h e1 (FrameW blockReq) (FrameH blockReq) imgFile m2 = (rd, md, ld)"
    by (cases "dumpDebugBuffer h e1 (FrameW blockReq) (FrameH blockReq) imgFile m2") auto
  from mirrorsD [OF mirrors_dumpDebugBuffer [OF vd] alm da db]
  have "rc = rd" "lc = ld" "alike view mc md" by simp_all
  with 1 2 a p1 p2 e da db show "r1 = r2 \<and> l1 = l2 \<and> alike view s1' s2'"
    by (simp add: debugCapture_def)
qed

lemma mirrors_debugCapture_const:
  "viewDetermined h view \<Longrightarrow> mirrors view (debugCapture h blockReq k imgFile)"
  using mirrors_debugCapture [of h view blockReq "\<lambda>a. k" imgFile] by simp

lemma mirrors_shadeMisses:
  assumes "viewDetermined h view"
  shows "mirrors view (shadeMisses h tr blockReq bounce)"
proof -
  have "shadeMisses h tr blockReq bounce
        = (if SceneDiffuseMatIndex tr \<noteq> - 1 then
             (if bounce = 0
              then (\<lambda>s. invoke h (ShadePrimaryRayMisses (word_of_int (SceneDiffuseMatIndex tr))
                                    (activeRayBuf s) (numPixels blockReq)) s)
              else (\<lambda>s. invoke h (ShadeIndirectRayMisses (word_of_int (SceneDiffuseMatIndex tr))
                                    (activeRayBuf s) (numPixels blockReq)) s))
           else skip)"
    by (rule ext) (simp add: shadeMisses_def)
  then show ?thesis
    using mirrors_active [OF assms,
        of "\<lambda>a. ShadePrimaryRayMisses (word_of_int (SceneDiffuseMatIndex tr)) a
                  (numPixels blockReq)"]
      mirrors_active [OF assms,
        of "\<lambda>a. ShadeIndirectRayMisses (word_of_int (SceneDiffuseMatIndex tr)) a
                  (numPixels blockReq)"]
    by (simp add: mirrors_skip)
qed

lemma mirrors_shadeHits:
  assumes "viewDetermined h view"
  shows "mirrors view (shadeHits h tr blockReq bounce)"
proof -
  have "shadeHits h tr blockReq bounce
        = (\<lambda>s. invoke h ((\<lambda>(a, d, n). ShadeHits bounce (MinBouncesForRR blockReq) (seeds h d)
                                         (numEmissives tr) a (numPixels blockReq)) (locals s))
                 (s\<lparr>draws := Suc (draws s)\<rparr>))"
    by (rule ext) (simp add: shadeHits_def locals_def)
  moreover have "mirrors view
     (\<lambda>s. invoke h ((\<lambda>(a, d, n). ShadeHits bounce (MinBouncesForRR blockReq) (seeds h d)
                                         (numEmissives tr) a (numPixels blockReq)) (locals s))
                 (s\<lparr>draws := Suc (draws s)\<rparr>))"
    by (rule mirrors_invoke [OF assms, where upd = "\<lambda>(a, d, n). (a, Suc d, n)"])
       (simp_all add: locals_def split: prod.splits)
  ultimately show ?thesis by simp
qed

lemma mirrors_swapBuffers:
  assumes "viewDetermined h view"
  shows "mirrors view (swapBuffers h blockReq bounce)"
proof (cases "bounce + 1 < NumBounces blockReq")
  case False
  then have "swapBuffers h blockReq bounce = skip"
    by (intro ext) (simp add: swapBuffers_def)
  then show ?thesis by (simp add: mirrors_skip)
next
  case True
  then have "swapBuffers h blockReq bounce
    = (\<lambda>s. invoke h ((\<lambda>(a, d, n). RayIntersectionQuery (1 - a) (numPixels blockReq)) (locals s))
             (s\<lparr>activeRayBuf := 1 - activeRayBuf s, swaps := Suc (swaps s)\<rparr>))"
    by (intro ext) (simp add: swapBuffers_def locals_def)
  moreover have "mirrors view
      (\<lambda>s. invoke h ((\<lambda>(a, d, n). RayIntersectionQuery (1 - a) (numPixels blockReq)) (locals s))
             (s\<lparr>activeRayBuf := 1 - activeRayBuf s, swaps := Suc (swaps s)\<rparr>))"
    by (rule mirrors_invoke [OF assms, where upd = "\<lambda>(a, d, n). (1 - a, d, Suc n)"])
       (simp_all add: locals_def split: prod.splits)
  ultimately show ?thesis by simp
qed

lemma mirrors_bounceBody:
  assumes "viewDetermined h view"
  shows "mirrors view (bounceBody h debugFlags tr blockReq bounce)"
  unfolding bounceBody_def
  by (intro mirrors_andThen mirrors_shadeMisses mirrors_shadeHits mirrors_swapBuffers
      mirrors_whenFlag mirrors_debugCapture_const mirrors_invoke_const assms)

lemma mirrors_bounceLoop:
  assumes vd: "viewDetermined h view"
  shows "mirrors view (bounceLoop h debugFlags tr blockReq bounce)"
proof -
  have "r1 = r2 \<and> l1 = l2 \<and> alike view s1' s2'"
    if "viewDetermined h view" "alike view s1 s2"
      "bounceLoop h debugFlags tr blockReq bounce s1 = (r1, s1', l1)"
      "bounceLoop h debugFlags tr blockReq bounce s2 = (r2, s2', l2)"
    for s1 s2 r1 s1' l1 r2 s2' l2
    using that
  proof (induction h debugFlags tr blockReq bounce s1 arbitrary: s2 r1 s1' l1 r2 s2' l2
      rule: bounceLoop.induct)
    case (1 h debugFlags tr blockReq bounce s)
    show ?case
    proof (cases "bounce < NumBounces blockReq")
      case False
      with "1.prems" show ?thesis
        by (auto simp: bounceLoop.simps [of _ _ _ _ bounce])
    next
      case True
      obtain ra ma la where b1: "bounceBody h debugFlags tr blockReq bounce s = (ra, ma, la)"
        by (cases "bounceBody h debugFlags tr blockReq bounce s") auto
      obtain rb mb lb where b2: "bounceBody h debugFlags tr blockReq bounce s2 = (rb, mb, lb)"
        by (cases "bounceBody h debugFlags tr blockReq bounce s2") auto
      from mirrorsD [OF mirrors_bounceBody [OF "1.prems"(1)] "1.prems"(2) b1 b2]
      have e: "ra = rb" "la = lb" and alm: "alike view ma mb" by simp_all
      show ?thesis
      proof (cases ra)
        case (Some x)
        with True b1 b2 e alm "1.prems"(3,4) show ?thesis
          by (auto simp: bounceLoop.simps [of _ _ _ _ bounce])
      next
        case None
        obtain rc mc lc where
          n1: "bounceLoop h debugFlags tr blockReq (bounce + 1) ma = (rc, mc, lc)"
          by (cases "bounceLoop h debugFlags tr blockReq (bounce + 1) ma") auto
        obtain rd md ld where
          n2: "bounceLoop h debugFlags tr blockReq (bounce + 1) mb = (rd, md, ld)"
          by (cases "bounceLoop h debugFlags tr blockReq (bounce + 1) mb") auto
        from "1.IH" [OF True b1 [symmetric] None refl "1.prems"(1) alm n1 n2]
        have "rc = rd" "lc = ld" "alike view mc md" by simp_all
        with True b1 b2 e None n1 n2 "1.prems"(3,4) show ?thesis
          by (auto simp: bounceLoop.simps [of _ _ _ _ bounce])
      qed
    qed
  qed
  with vd show ?thesis by (intro mirrorsI) blast
qed

section \<open>The device type does not change the results\<close>

lemma device_choice_invisible:
  assumes vd: "viewDetermined h view"
    and err: "fst (dev h (RayPacketIntersectionQuery 0 (numPixels blockReq)) w)
              = fst (dev h (RayIntersectionQuery 0 (numPixels blockReq)) w)"
    and res: "view (snd (dev h (RayPacketIntersectionQuery 0 (numPixels blockReq)) w))
              = view (snd (dev h (RayIntersectionQuery 0 (numPixels blockReq)) w))"
  shows "failure (MonteCarloIntegrator h debugFlags (tr\<lparr>deviceType := GpuDevice\<rparr>) blockReq w)
           = failure (MonteCarloIntegrator h debugFlags (tr\<lparr>deviceType := d\<rparr>) blockReq w)
    \<and> view (world (final (MonteCarloIntegrator h debugFlags (tr\<lparr>deviceType := GpuDevice\<rparr>)
                            blockReq w)))
       = view (world (final (MonteCarloIntegrator h debugFlags (tr\<lparr>deviceType := d\<rparr>)
                               blockReq w)))
    \<and> locals (final (MonteCarloIntegrator h debugFlags (tr\<lparr>deviceType := GpuDevice\<rparr>)
                       blockReq w))
       = locals (final (MonteCarloIntegrator h debugFlags (tr\<lparr>deviceType := d\<rparr>) blockReq w))
    \<and> map snd (trace (MonteCarloIntegrator h debugFlags (tr\<lparr>deviceType := GpuDevice\<rparr>)
                         blockReq w))
       = map snd (trace (MonteCarloIntegrator h debugFlags (tr\<lparr>deviceType := d\<rparr>)
                           blockReq w))
    \<and> tl (trace (MonteCarloIntegrator h debugFlags (tr\<lparr>deviceType := GpuDevice\<rparr>) blockReq w))
       = tl (trace (MonteCarloIntegrator h debugFlags (tr\<lparr>deviceType := d\<rparr>) blockReq w))"
proof (cases "d = GpuDevice")
  case True
  then show ?thesis by simp
next
  case False
  let ?s0 = "\<lparr>world = w, activeRayBuf = 0, draws = 0, swaps = 0\<rparr>"
  let ?rest = "andThen (whenFlag (hasFlag debugFlags PrimaryRayIntersectionDepth)
                (\<lambda>s. debugCapture h blockReq
                        (DebugRayIntersectionDepth blockReq (activeRayBuf s))
                        ''debug-primary-intersection-depth.png'' s))
    (andThen (whenFlag (hasFlag debugFlags PrimaryRayIntersectionNormals)
                (\<lambda>s. debugCapture h blockReq
                        (DebugRayIntersectionNormals blockReq (activeRayBuf s))
                        ''debug-primary-intersection-normals.png'' s))
             (bounceLoop h debugFlags tr blockReq 0))"
  have loop: "bounceLoop h debugFlags (tr\<lparr>deviceType := x\<rparr>) blockReq 0
        = bounceLoop h debugFlags tr blockReq 0" for x
    by (rule ext) (rule bounceLoop_deviceType)
  have i: "integratorStages h debugFlags (tr\<lparr>deviceType := x\<rparr>) blockReq
             = andThen (primaryIntersection h (tr\<lparr>deviceType := x\<rparr>) blockReq) ?rest" for x
    by (simp add: integratorStages_def loop)
  have m: "mirrors view ?rest"
    by (intro mirrors_andThen mirrors_whenFlag mirrors_debugCapture mirrors_bounceLoop vd)
  obtain e1 w1 where d1: "dev h (RayPacketIntersectionQuery 0 (numPixels blockReq)) w = (e1, w1)"
    by (cases "dev h (RayPacketIntersectionQuery 0 (numPixels blockReq)) w") auto
  obtain e2 w2 where d2: "dev h (RayIntersectionQuery 0 (numPixels blockReq)) w = (e2, w2)"
    by (cases "dev h (RayIntersectionQuery 0 (numPixels blockReq)) w") auto
  from err res d1 d2 have e: "e2 = e1" and v: "view w1 = view w2" by simp_all
  have p1: "primaryIntersection h (tr\<lparr>deviceType := GpuDevice\<rparr>) blockReq ?s0
        = (map_option Returned e1, ?s0\<lparr>world := w1\<rparr>,
           [(RayPacketIntersectionQuery 0 (numPixels blockReq), e1)])"
    using d1 by (simp add: primaryIntersection_def invoke_def perform_def)
  have p2: "primaryIntersection h (tr\<lparr>deviceType := d\<rparr>) blockReq ?s0
        = (map_option Returned e1, ?s0\<lparr>world := w2\<rparr>,
           [(RayIntersectionQuery 0 (numPixels blockReq), e1)])"
    using d2 e False by (simp add: primaryIntersection_def invoke_def perform_def)
  have al: "alike view (?s0\<lparr>world := w1\<rparr>) (?s0\<lparr>world := w2\<rparr>)"
    using v by (simp add: alike_def locals_def)
  obtain ra ma la where r1: "?rest (?s0\<lparr>world := w1\<rparr>) = (ra, ma, la)"
    by (cases "?rest (?s0\<lparr>world := w1\<rparr>)") auto
  obtain rb mb lb where r2: "?rest (?s0\<lparr>world := w2\<rparr>) = (rb, mb, lb)"
    by (cases "?rest (?s0\<lparr>world := w2\<rparr>)") auto
  from mirrorsD [OF m al r1 r2] have same: "ra = rb" "la = lb" "alike view ma mb"
    by simp_all
  have g: "MonteCarloIntegrator h debugFlags (tr\<lparr>deviceType := GpuDevice\<rparr>) blockReq w
      = (case e1 of
           Some x \<Rightarrow> \<lparr>elapsed = clock h w1 - clock h w, failure = Some (Returned x),
                      final = ?s0\<lparr>world := w1\<rparr>,
                      trace = [(RayPacketIntersectionQuery 0 (numPixels blockReq), e1)]\<rparr>
         | None \<Rightarrow> \<lparr>elapsed = clock h (world ma) - clock h w, failure = ra, final = ma,
                     trace = (RayPacketIntersectionQuery 0 (numPixels blockReq), e1) # la\<rparr>)"
    using p1 r1 by (cases e1) (simp_all add: MonteCarloIntegrator_def i andThen_def)
  have c: "MonteCarloIntegrator h debugFlags (tr\<lparr>deviceType := d\<rparr>) blockReq w
      = (case e1 of
           Some x \<Rightarrow> \<lparr>elapsed = clock h w2 - clock h w, failure = Some (Returned x),
                      final = ?s0\<lparr>world := w2\<rparr>,
                      trace = [(RayIntersectionQuery 0 (numPixels blockReq), e1)]\<rparr>
         | None \<Rightarrow> \<lparr>elapsed = clock h (world mb) - clock h w, failure = rb, final = mb,
                     trace = (RayIntersectionQuery 0 (numPixels blockReq), e1) # lb\<rparr>)"
    using p2 r2 by (cases e1) (simp_all add: MonteCarloIntegrator_def i andThen_def)
  show ?thesis
    unfolding g c using same v by (cases e1) (simp_all add: alike_def locals_def)
qed

lemma viewDetermined_kernelHost:
  "viewDetermined (kernelHost packetSize intersect other cost sd) fst"
  unfolding viewDetermined_def
proof (intro allI impI)
  fix c :: call and w1 w2 :: "('a, 'b, 'c) device \<times> int"
  assume "fst w1 = fst w2"
  then obtain d t1 t2 where w: "w1 = (d, t1)" "w2 = (d, t2)"
    by (cases w1; cases w2) simp
  show "fst (dev (kernelHost packetSize intersect other cost sd) c w1)
          = fst (dev (kernelHost packetSize intersect other cost sd) c w2)
        \<and> fst (snd (dev (kernelHost packetSize intersect other cost sd) c w1))
          = fst (snd (dev (kernelHost packetSize intersect other cost sd) c w2))"
    unfolding w by (cases c) (simp_all add: kernelHost_def split: prod.splits)
qed

lemma kernel_runs_agree:
  assumes "0 < packetSize"
  shows "failure (MonteCarloIntegrator (kernelHost packetSize intersect other cost sd)
                    debugFlags (tr\<lparr>deviceType := GpuDevice\<rparr>) blockReq (d, t))
           = failure (MonteCarloIntegrator (kernelHost packetSize intersect other cost sd)
                        debugFlags (tr\<lparr>deviceType := dt\<rparr>) blockReq (d, t))
    \<and> fst (world (final (MonteCarloIntegrator (kernelHost packetSize intersect other cost sd)
                            debugFlags (tr\<lparr>deviceType := GpuDevice\<rparr>) blockReq (d, t))))
       = fst (world (final (MonteCarloIntegrator (kernelHost packetSize intersect other cost sd)
                              debugFlags (tr\<lparr>deviceType := dt\<rparr>) blockReq (d, t))))
    \<and> locals (final (MonteCarloIntegrator (kernelHost packetSize intersect other cost sd)
                       debugFlags (tr\<lparr>deviceType := GpuDevice\<rparr>) blockReq (d, t)))
       = locals (final (MonteCarloIntegrator (kernelHost packetSize intersect other cost sd)
                          debugFlags (tr\<lparr>deviceType := dt\<rparr>) blockReq (d, t)))
    \<and> map snd (trace (MonteCarloIntegrator (kernelHost packetSize intersect other cost sd)
                         debugFlags (tr\<lparr>deviceType := GpuDevice\<rparr>) blockReq (d, t)))
       = map snd (trace (MonteCarloIntegrator (kernelHost packetSize intersect other cost sd)
                           debugFlags (tr\<lparr>deviceType := dt\<rparr>) blockReq (d, t)))
    \<and> tl (trace (MonteCarloIntegrator (kernelHost packetSize intersect other cost sd)
                    debugFlags (tr\<lparr>deviceType := GpuDevice\<rparr>) blockReq (d, t)))
       = tl (trace (MonteCarloIntegrator (kernelHost packetSize intersect other cost sd)
                      debugFlags (tr\<lparr>deviceType := dt\<rparr>) blockReq (d, t)))"
  by (rule device_choice_invisible [OF viewDetermined_kernelHost])
     (simp_all add: kernelHost_def packet_query_eq [OF assms])


lemma five_ray_gpu_run:
  "elapsed (MonteCarloIntegrator fiveRayHost NoDebug scenarioTracer oneBounceRequest
              (fiveRays, 0)) = 7
   \<and> failure (MonteCarloIntegrator fiveRayHost NoDebug scenarioTracer oneBounceRequest
                (fiveRays, 0)) = None
   \<and> map fst (trace (MonteCarloIntegrator fiveRayHost NoDebug scenarioTracer oneBounceRequest
                        (fiveRays, 0)))
     = [RayPacketIntersectionQuery 0 16384, ShadePrimaryRayMisses 0 0 16384,
        ShadeHits 0 2 0 2 0 16384, RayIntersectionTest 2 16384,
        AccumulateEmissiveSamples 2 16384]"
  by code_simp

lemma five_ray_cpu_run:
  "elapsed (MonteCarloIntegrator fiveRayHost NoDebug cpuTracer oneBounceRequest
              (fiveRays, 0)) = 9
   \<and> hitBuffer (fst (world (final (MonteCarloIntegrator fiveRayHost NoDebug cpuTracer
                                      oneBounceRequest (fiveRays, 0)))))
     = [10, 20, 30, 40, 50]
   \<and> map fst (trace (MonteCarloIntegrator fiveRayHost NoDebug cpuTracer oneBounceRequest
                        (fiveRays, 0)))
     = [RayIntersectionQuery 0 16384, ShadePrimaryRayMisses 0 0 16384,
        ShadeHits 0 2 0 2 0 16384, RayIntersectionTest 2 16384,
        AccumulateEmissiveSamples 2 16384]"
  by code_simp

lemma five_ray_queries:
  "perRayQuery (\<lambda>r. 10 * r) [1, 2, 3, 4, 5 :: nat] 16384 = [10, 20, 30, 40, 50 :: nat]
   \<and> packets 2 [1, 2, 3, 4, 5 :: nat] = [[1, 2], [3, 4], [5]]"
  by code_simp

section \<open>The claims\<close>

text \<open>
  C1. When a call of a run other than the deferred \<^verbatim>\<open>f.Close\<close> returns an error (a device
  operation, and also \<^verbatim>\<open>os.Create\<close> or \<^verbatim>\<open>png.Encode\<close>), the integrator returns that
  error; no call before it had failed, so it is the first error; after it the run makes no
  call but the deferred \<^verbatim>\<open>f.Close\<close> of a dump that had opened its file, so no device call
  follows; and the duration returned is the clock reading at the return minus the reading at
  the start.
\<close>

theorem integrator_returns_first_error:
  assumes "i < length (trace (MonteCarloIntegrator h debugFlags tr blockReq w))"
    and "trace (MonteCarloIntegrator h debugFlags tr blockReq w) ! i = (c, Some e)"
    and "\<not> isClose c"
  shows "failure (MonteCarloIntegrator h debugFlags tr blockReq w) = Some (Returned e)
    \<and> quiet (take i (trace (MonteCarloIntegrator h debugFlags tr blockReq w)))
    \<and> closes (drop (Suc i) (trace (MonteCarloIntegrator h debugFlags tr blockReq w)))
    \<and> elapsed (MonteCarloIntegrator h debugFlags tr blockReq w)
        = clock h (world (final (MonteCarloIntegrator h debugFlags tr blockReq w))) - clock h w"
  using shaped_first_error [OF shaped_trace assms] by (simp add: elapsed_run)

theorem integrator_returns_first_error_witness:
  "7 < length (trace (MonteCarloIntegrator (countingHost hitFailure) NoDebug scenarioTracer
                        scenarioRequest 0))
   \<and> trace (MonteCarloIntegrator (countingHost hitFailure) NoDebug scenarioTracer
              scenarioRequest 0) ! 7
       = (ShadeHits 1 2 1 2 1 16384, Some ''hit shading failed'')
   \<and> failure (MonteCarloIntegrator (countingHost hitFailure) NoDebug scenarioTracer
                scenarioRequest 0) = Some (Returned ''hit shading failed'')
   \<and> quiet (take 7 (trace (MonteCarloIntegrator (countingHost hitFailure) NoDebug
                               scenarioTracer scenarioRequest 0)))
   \<and> closes (drop 8 (trace (MonteCarloIntegrator (countingHost hitFailure) NoDebug
                                scenarioTracer scenarioRequest 0)))
   \<and> elapsed (MonteCarloIntegrator (countingHost hitFailure) NoDebug scenarioTracer
                scenarioRequest 0) = 8"
proof -
  let ?out = "MonteCarloIntegrator (countingHost hitFailure) NoDebug scenarioTracer
                scenarioRequest 0"
  have i: "7 < length (trace ?out)"
    by (simp add: scenario_run)
  have at: "trace ?out ! 7 = (ShadeHits 1 2 1 2 1 16384, Some ''hit shading failed'')"
    by (simp add: scenario_run)
  have nc: "\<not> isClose (ShadeHits 1 2 1 2 1 16384)"
    by simp
  have "world (final ?out) = 8"
    by (simp add: scenario_run)
  then have c: "clock (countingHost hitFailure) (world (final ?out))
             - clock (countingHost hitFailure) 0 = 8"
    by (simp add: countingHost_def)
  from integrator_returns_first_error [OF i at nc] i at c show ?thesis
    by simp
qed







text \<open>
  C4. When \<^verbatim>\<open>SceneDiffuseMatIndex\<close> is -1, no run makes a miss-shading call. Otherwise every
  iteration of the loop, whatever its outcome, makes exactly one miss-shading call, on the
  active ray buffer: the primary variant when \<^verbatim>\<open>bounce\<close> is 0 and the indirect variant for
  every other value; and in a run that returns \<^verbatim>\<open>nil\<close> the miss-shading calls are the primary
  variant for bounce 0 followed by the indirect variant for each bounce from 1 to
  \<^verbatim>\<open>NumBounces - 1\<close>.
\<close>

theorem miss_shading_by_bounce:
  "(SceneDiffuseMatIndex tr = - 1 \<longrightarrow>
      filter isMissShading
        (map fst (trace (MonteCarloIntegrator h debugFlags tr blockReq w))) = [])
   \<and> (SceneDiffuseMatIndex tr \<noteq> - 1
        \<and> bounceBody h debugFlags tr blockReq bounce s = (r, s', l) \<longrightarrow>
      filter isMissShading (map fst l)
        = [if bounce = 0
           then ShadePrimaryRayMisses (word_of_int (SceneDiffuseMatIndex tr))
                  (activeRayBuf s) (numPixels blockReq)
           else ShadeIndirectRayMisses (word_of_int (SceneDiffuseMatIndex tr))
                  (activeRayBuf s) (numPixels blockReq)])
   \<and> (SceneDiffuseMatIndex tr \<noteq> - 1
        \<and> failure (MonteCarloIntegrator h debugFlags tr blockReq w) = None \<longrightarrow>
      filter isMissShading
        (map fst (trace (MonteCarloIntegrator h debugFlags tr blockReq w)))
        = map (\<lambda>b. if b = 0
                then ShadePrimaryRayMisses (word_of_int (SceneDiffuseMatIndex tr)) 0
                       (numPixels blockReq)
                else ShadeIndirectRayMisses (word_of_int (SceneDiffuseMatIndex tr))
                       (bufferAt b) (numPixels blockReq))
            [0..<unat (NumBounces blockReq)])"
proof (intro conjI impI)
  assume "SceneDiffuseMatIndex tr = - 1"
  then show "filter isMissShading
        (map fst (trace (MonteCarloIntegrator h debugFlags tr blockReq w))) = []"
    by (rule run_no_miss)
next
  assume "SceneDiffuseMatIndex tr \<noteq> - 1
        \<and> bounceBody h debugFlags tr blockReq bounce s = (r, s', l)"
  then have bg: "SceneDiffuseMatIndex tr \<noteq> - 1"
    and b: "bounceBody h debugFlags tr blockReq bounce s = (r, s', l)"
    by simp_all
  from bounceBody_misses [OF b] bg
  show "filter isMissShading (map fst l)
        = [if bounce = 0
           then ShadePrimaryRayMisses (word_of_int (SceneDiffuseMatIndex tr))
                  (activeRayBuf s) (numPixels blockReq)
           else ShadeIndirectRayMisses (word_of_int (SceneDiffuseMatIndex tr))
                  (activeRayBuf s) (numPixels blockReq)]"
    by (simp add: missCalls_def)
next
  assume "SceneDiffuseMatIndex tr \<noteq> - 1
        \<and> failure (MonteCarloIntegrator h debugFlags tr blockReq w) = None"
  then have bg: "SceneDiffuseMatIndex tr \<noteq> - 1"
    and ok: "failure (MonteCarloIntegrator h debugFlags tr blockReq w) = None"
    by simp_all
  from run_ok [OF ok]
  have "filter isMissShading
          (map fst (trace (MonteCarloIntegrator h debugFlags tr blockReq w)))
        = concat (map (\<lambda>b. missCalls tr blockReq (word_of_nat b) (bufferAt b))
                   [0..<unat (NumBounces blockReq)])"
    by (simp add: filter_miss_schedule)
  then show "filter isMissShading
        (map fst (trace (MonteCarloIntegrator h debugFlags tr blockReq w)))
        = map (\<lambda>b. if b = 0
                then ShadePrimaryRayMisses (word_of_int (SceneDiffuseMatIndex tr)) 0
                       (numPixels blockReq)
                else ShadeIndirectRayMisses (word_of_int (SceneDiffuseMatIndex tr))
                       (bufferAt b) (numPixels blockReq))
            [0..<unat (NumBounces blockReq)]"
    by (simp only: miss_schedule_background [OF bg])
qed

theorem miss_shading_by_bounce_witness:
  "SceneDiffuseMatIndex noBackgroundTracer = - 1
   \<and> filter isMissShading
        (map fst (trace (MonteCarloIntegrator okHost NoDebug noBackgroundTracer
                           scenarioRequest 0))) = []
   \<and> SceneDiffuseMatIndex scenarioTracer \<noteq> - 1
   \<and> bounceBody okHost NoDebug scenarioTracer scenarioRequest 1 midRunState
      = (None, \<lparr>world = 11, activeRayBuf = 0, draws = 2, swaps = 2\<rparr>,
         [(ShadeIndirectRayMisses 0 1 16384, None), (ShadeHits 1 2 1 2 1 16384, None),
          (RayIntersectionTest 2 16384, None), (AccumulateEmissiveSamples 2 16384, None),
          (RayIntersectionQuery 0 16384, None)])
   \<and> filter isMissShading
        (map fst [(ShadeIndirectRayMisses 0 1 16384, None :: error option),
          (ShadeHits 1 2 1 2 1 16384, None),
          (RayIntersectionTest 2 16384, None), (AccumulateEmissiveSamples 2 16384, None),
          (RayIntersectionQuery 0 16384, None)])
      = [ShadeIndirectRayMisses 0 1 16384]
   \<and> failure (MonteCarloIntegrator okHost NoDebug scenarioTracer scenarioRequest 0) = None
   \<and> filter isMissShading
        (map fst (trace (MonteCarloIntegrator okHost NoDebug scenarioTracer
                           scenarioRequest 0)))
      = [ShadePrimaryRayMisses 0 0 16384, ShadeIndirectRayMisses 0 1 16384,
         ShadeIndirectRayMisses 0 0 16384]"
proof -
  have nb: "SceneDiffuseMatIndex noBackgroundTracer = - 1"
    by (simp add: noBackgroundTracer_def)
  have bg: "SceneDiffuseMatIndex scenarioTracer \<noteq> - 1"
    by (simp add: scenarioTracer_def)
  have ok: "failure (MonteCarloIntegrator okHost NoDebug scenarioTracer scenarioRequest 0) = None"
    by (simp add: scenario_ok_run)
  have n: "unat (NumBounces scenarioRequest) = 3" "numPixels scenarioRequest = 16384"
    by (simp_all add: scenarioRequest_def numPixels_def)
  have up: "[0..<3] = [0, 1, 2]"
    by (simp add: upt_rec)
  have m: "word_of_int (SceneDiffuseMatIndex scenarioTracer) = (0 :: 32 word)"
    by (simp add: scenarioTracer_def)
  from miss_shading_by_bounce [of noBackgroundTracer okHost NoDebug scenarioRequest 0]
    miss_shading_by_bounce [of scenarioTracer okHost NoDebug scenarioRequest 0 1 midRunState]
    nb bg ok mid_run_body n up m
  show ?thesis
    by (simp add: bufferAt_def)
qed

text \<open>
  C5. In every run, each occlusion test and each emissive accumulation is called on ray
  buffer 2, and each call that takes the active ray buffer takes index 0 or 1, so the two
  never coincide; in a run that returns \<^verbatim>\<open>nil\<close>, each of the \<^verbatim>\<open>NumBounces\<close> iterations
  makes exactly one occlusion test and one accumulation, in this order, both on buffer 2.
\<close>

theorem occlusion_buffer_is_two:
  "set (List.map_filter occlusionBufferOf
          (map fst (trace (MonteCarloIntegrator h debugFlags tr blockReq w)))) \<subseteq> {2}
   \<and> set (List.map_filter activeBufferOf
          (map fst (trace (MonteCarloIntegrator h debugFlags tr blockReq w)))) \<subseteq> {0, 1}
   \<and> set (List.map_filter occlusionBufferOf
          (map fst (trace (MonteCarloIntegrator h debugFlags tr blockReq w))))
       \<inter> set (List.map_filter activeBufferOf
          (map fst (trace (MonteCarloIntegrator h debugFlags tr blockReq w)))) = {}
   \<and> (failure (MonteCarloIntegrator h debugFlags tr blockReq w) = None \<longrightarrow>
        filter isOcclusionStep
          (map fst (trace (MonteCarloIntegrator h debugFlags tr blockReq w)))
        = concat (replicate (unat (NumBounces blockReq))
            [RayIntersectionTest 2 (numPixels blockReq),
             AccumulateEmissiveSamples 2 (numPixels blockReq)]))"
proof -
  let ?out = "MonteCarloIntegrator h debugFlags tr blockReq w"
  have ok: "list_all bufferIndexOK (map fst (trace ?out))"
    by (rule run_bufferIndexOK [THEN conjunct2])
  have "filter isOcclusionStep (map fst (trace ?out))
        = concat (replicate (unat (NumBounces blockReq))
            [RayIntersectionTest 2 (numPixels blockReq),
             AccumulateEmissiveSamples 2 (numPixels blockReq)])"
    if "failure ?out = None"
    using run_ok [OF that] by (simp add: filter_occlusion_schedule)
  moreover have "set (List.map_filter occlusionBufferOf (map fst (trace ?out)))
       \<inter> set (List.map_filter activeBufferOf (map fst (trace ?out))) = {}"
    using occlusion_indices [OF ok] active_indices [OF ok] by auto
  ultimately show ?thesis
    using occlusion_indices [OF ok] active_indices [OF ok] by blast
qed

theorem occlusion_buffer_is_two_witness:
  "failure (MonteCarloIntegrator okHost NoDebug scenarioTracer scenarioRequest 0) = None
   \<and> filter isOcclusionStep
        (map fst (trace (MonteCarloIntegrator okHost NoDebug scenarioTracer scenarioRequest 0)))
      = [RayIntersectionTest 2 16384, AccumulateEmissiveSamples 2 16384,
         RayIntersectionTest 2 16384, AccumulateEmissiveSamples 2 16384,
         RayIntersectionTest 2 16384, AccumulateEmissiveSamples 2 16384]"
proof -
  have ok: "failure (MonteCarloIntegrator okHost NoDebug scenarioTracer scenarioRequest 0) = None"
    by (simp add: scenario_ok_run)
  have n: "unat (NumBounces scenarioRequest) = 3" "numPixels scenarioRequest = 16384"
    by (simp_all add: scenarioRequest_def numPixels_def)
  have r: "replicate 3 x = [x, x, x]" for x :: "call list"
    by (simp add: numeral_3_eq_3)
  from occlusion_buffer_is_two [of okHost NoDebug scenarioTracer scenarioRequest 0] ok n
  show ?thesis
    by (simp add: r)
qed



text \<open>
  C7. Given the error of the preceding debug kernel call, \<^verbatim>\<open>dumpDebugBuffer\<close> returns exactly
  that error, makes no call (no file creation, read-back or encoding) and leaves the state
  as it is. Whenever it makes a call or ends otherwise than by returning what it was given,
  the kernel call had succeeded; then it creates the file, reads the buffer back, encodes
  and closes, stopping at the first of the first three that fails and returning its error,
  with nothing but the deferred close after it; when the file was created and the image of
  the frame is too large for \<^verbatim>\<open>image.NewRGBA\<close>, it panics before the read-back, and only
  the deferred close follows the creation.
\<close>

theorem dump_returns_kernel_error_first:
  "dumpDebugBuffer h (Some e) frameW frameH imgFile s = (Some (Returned e), s, [])
   \<and> (dumpDebugBuffer h k frameW frameH imgFile s = (r, s', l)
        \<and> (l \<noteq> [] \<or> r \<noteq> map_option Returned k) \<longrightarrow>
        k = None \<and> shaped r l
        \<and> (map fst l = [OsCreate imgFile] \<and> (\<exists>e'. r = Some (Returned e'))
           \<or> map fst l = [OsCreate imgFile, FileClose imgFile]
               \<and> imageTooLarge frameW frameH \<and> (\<exists>m. r = Some (Panicked m))
           \<or> map fst l = [OsCreate imgFile, DebugOutputReadData frameW frameH,
                            FileClose imgFile]
               \<and> \<not> imageTooLarge frameW frameH \<and> (\<exists>e'. r = Some (Returned e'))
           \<or> map fst l = [OsCreate imgFile, DebugOutputReadData frameW frameH,
                            PngEncode imgFile, FileClose imgFile]
               \<and> \<not> imageTooLarge frameW frameH
               \<and> (r = None \<or> (\<exists>e'. r = Some (Returned e')))))"
proof -
  have "k = None \<and> shaped r l
        \<and> (map fst l = [OsCreate imgFile] \<and> (\<exists>e'. r = Some (Returned e'))
           \<or> map fst l = [OsCreate imgFile, FileClose imgFile]
               \<and> imageTooLarge frameW frameH \<and> (\<exists>m. r = Some (Panicked m))
           \<or> map fst l = [OsCreate imgFile, DebugOutputReadData frameW frameH,
                            FileClose imgFile]
               \<and> \<not> imageTooLarge frameW frameH \<and> (\<exists>e'. r = Some (Returned e'))
           \<or> map fst l = [OsCreate imgFile, DebugOutputReadData frameW frameH,
                            PngEncode imgFile, FileClose imgFile]
               \<and> \<not> imageTooLarge frameW frameH
               \<and> (r = None \<or> (\<exists>e'. r = Some (Returned e'))))"
    if a: "dumpDebugBuffer h k frameW frameH imgFile s = (r, s', l)
           \<and> (l \<noteq> [] \<or> r \<noteq> map_option Returned k)"
  proof -
    from a have k: "k = None"
      using dump_kernel_ok [of h k frameW frameH imgFile s r s' l] by blast
    with a have d: "dumpDebugBuffer h None frameW frameH imgFile s = (r, s', l)"
      by simp
    from k shaped_dumpDebugBuffer [OF d] dump_shapes [OF d] show ?thesis
      by simp
  qed
  with dump_after_kernel_error [of h e frameW frameH imgFile s] show ?thesis
    by blast
qed

theorem dump_returns_kernel_error_first_witness:
  "dumpDebugBuffer (countingHost readbackFailure) (Some ''kernel failed'') 256 256
     ''debug-throughput-000.png'' midRunState
   = (Some (Returned ''kernel failed''), midRunState, [])
   \<and> dumpDebugBuffer (countingHost readbackFailure) None 256 256 ''debug-throughput-000.png''
       midRunState
     = (Some (Returned ''readback failed''),
        \<lparr>world = 9, activeRayBuf = 1, draws = 1, swaps = 1\<rparr>,
        [(OsCreate ''debug-throughput-000.png'', None),
         (DebugOutputReadData 256 256, Some ''readback failed''),
         (FileClose ''debug-throughput-000.png'', None)])
   \<and> shaped (Some (Returned ''readback failed''))
        [(OsCreate ''debug-throughput-000.png'', None),
         (DebugOutputReadData 256 256, Some ''readback failed''),
         (FileClose ''debug-throughput-000.png'', None)]
   \<and> \<not> imageTooLarge 256 256"
  using dump_returns_kernel_error_first [of "countingHost readbackFailure" "''kernel failed''"
      256 256 "''debug-throughput-000.png''" midRunState None
      "Some (Returned ''readback failed'')"
      "\<lparr>world = 9, activeRayBuf = 1, draws = 1, swaps = 1\<rparr>"
      "[(OsCreate ''debug-throughput-000.png'', None),
         (DebugOutputReadData 256 256, Some ''readback failed''),
         (FileClose ''debug-throughput-000.png'', None)]"]
    readback_failure_dump
  by simp

text \<open>
  C8. The first call of every run is the primary intersection on ray buffer 0: the packet
  query when the device type is \<^verbatim>\<open>GpuDevice\<close>, the per-ray query for every other device
  type, and no later call of the run is a packet query. The two queries, for packets of at
  least one ray, produce the same intersection results. On a device that runs them, the
  run for a GPU device and the run for any other device type end the same way (the same
  error, \<^verbatim>\<open>nil\<close> or panic) with the same device state and the same integrator variables,
  get the same answers from their calls and make the same calls after the first one; the
  durations of the two runs may differ.
\<close>

theorem primary_query_by_device:
  "trace (MonteCarloIntegrator h debugFlags tr blockReq w) \<noteq> []
   \<and> fst (hd (trace (MonteCarloIntegrator h debugFlags tr blockReq w)))
       = (if deviceType tr = GpuDevice then RayPacketIntersectionQuery 0 (numPixels blockReq)
          else RayIntersectionQuery 0 (numPixels blockReq))
   \<and> filter isPacketQuery
        (map fst (tl (trace (MonteCarloIntegrator h debugFlags tr blockReq w)))) = []
   \<and> (0 < packetSize \<longrightarrow>
        packetQuery packetSize intersect rays count = perRayQuery intersect rays count
        \<and> failure (MonteCarloIntegrator (kernelHost packetSize intersect other cost sd)
                      debugFlags (tr\<lparr>deviceType := GpuDevice\<rparr>) blockReq (d, t))
           = failure (MonteCarloIntegrator (kernelHost packetSize intersect other cost sd)
                        debugFlags (tr\<lparr>deviceType := dt\<rparr>) blockReq (d, t))
        \<and> fst (world (final (MonteCarloIntegrator
                                (kernelHost packetSize intersect other cost sd)
                                debugFlags (tr\<lparr>deviceType := GpuDevice\<rparr>) blockReq (d, t))))
           = fst (world (final (MonteCarloIntegrator
                                  (kernelHost packetSize intersect other cost sd)
                                  debugFlags (tr\<lparr>deviceType := dt\<rparr>) blockReq (d, t))))
        \<and> locals (final (MonteCarloIntegrator (kernelHost packetSize intersect other cost sd)
                           debugFlags (tr\<lparr>deviceType := GpuDevice\<rparr>) blockReq (d, t)))
           = locals (final (MonteCarloIntegrator (kernelHost packetSize intersect other cost sd)
                              debugFlags (tr\<lparr>deviceType := dt\<rparr>) blockReq (d, t)))
        \<and> map snd (trace (MonteCarloIntegrator (kernelHost packetSize intersect other cost sd)
                             debugFlags (tr\<lparr>deviceType := GpuDevice\<rparr>) blockReq (d, t)))
           = map snd (trace (MonteCarloIntegrator
                               (kernelHost packetSize intersect other cost sd)
                               debugFlags (tr\<lparr>deviceType := dt\<rparr>) blockReq (d, t)))
        \<and> tl (trace (MonteCarloIntegrator (kernelHost packetSize intersect other cost sd)
                        debugFlags (tr\<lparr>deviceType := GpuDevice\<rparr>) blockReq (d, t)))
           = tl (trace (MonteCarloIntegrator (kernelHost packetSize intersect other cost sd)
                          debugFlags (tr\<lparr>deviceType := dt\<rparr>) blockReq (d, t))))"
  using primary_then_no_packet [of h debugFlags tr blockReq w]
    packet_query_eq [of packetSize intersect rays count]
    kernel_runs_agree [of packetSize intersect other cost sd debugFlags tr blockReq d t dt]
  by simp

theorem primary_query_by_device_witness:
  "0 < (2 :: nat)
   \<and> packetQuery 2 (\<lambda>r. 10 * r) [1, 2, 3, 4, 5 :: nat] 16384 = [10, 20, 30, 40, 50 :: nat]
   \<and> fst (hd (trace (MonteCarloIntegrator fiveRayHost NoDebug scenarioTracer oneBounceRequest
                        (fiveRays, 0))))
       = RayPacketIntersectionQuery 0 16384
   \<and> fst (hd (trace (MonteCarloIntegrator fiveRayHost NoDebug cpuTracer oneBounceRequest
                        (fiveRays, 0))))
       = RayIntersectionQuery 0 16384
   \<and> hitBuffer (fst (world (final (MonteCarloIntegrator fiveRayHost NoDebug scenarioTracer
                                      oneBounceRequest (fiveRays, 0)))))
       = [10, 20, 30, 40, 50]
   \<and> hitBuffer (fst (world (final (MonteCarloIntegrator fiveRayHost NoDebug cpuTracer
                                      oneBounceRequest (fiveRays, 0)))))
       = [10, 20, 30, 40, 50]
   \<and> failure (MonteCarloIntegrator fiveRayHost NoDebug cpuTracer oneBounceRequest
                (fiveRays, 0)) = None
   \<and> elapsed (MonteCarloIntegrator fiveRayHost NoDebug scenarioTracer oneBounceRequest
                (fiveRays, 0)) = 7
   \<and> elapsed (MonteCarloIntegrator fiveRayHost NoDebug cpuTracer oneBounceRequest
                (fiveRays, 0)) = 9"
proof -
  have t: "scenarioTracer\<lparr>deviceType := GpuDevice\<rparr> = scenarioTracer"
    "scenarioTracer\<lparr>deviceType := CpuDevice\<rparr> = cpuTracer"
    "deviceType scenarioTracer = GpuDevice" "deviceType cpuTracer \<noteq> GpuDevice"
    by (simp_all add: scenarioTracer_def cpuTracer_def)
  have n: "numPixels oneBounceRequest = 16384"
    by (simp add: oneBounceRequest_def scenarioRequest_def numPixels_def)
  note claim = primary_query_by_device [where h = fiveRayHost and debugFlags = NoDebug
      and blockReq = oneBounceRequest and w = "(fiveRays, 0)" and packetSize = 2
      and intersect = "\<lambda>r. 10 * r" and rays = "[1, 2, 3, 4, 5]" and count = 16384
      and other = "\<lambda>c d. (None, d)" and cost = queryCost and sd = word_of_nat
      and d = fiveRays and t = 0 and dt = CpuDevice]
  from claim [where tr = scenarioTracer] claim [where tr = cpuTracer]
    five_ray_gpu_run five_ray_cpu_run five_ray_queries t n
  show ?thesis
    by (simp add: fiveRayHost_def [symmetric])
qed

text \<open>
  C9. \<^verbatim>\<open>NoDebug\<close> is 0 and the eight named flags are 2, 4, 8, 16, 32, 64, 128 and 256, that
  is \<open>2 ^ k\<close> for \<open>k\<close> from 1 to 8 in declaration order, so bit 0 is unused and every flag
  sits one position above its place in the declaration; the flags are pairwise distinct,
  no two share a bit, and the mask test of each flag reads exactly its own bit.
\<close>

theorem debug_flag_values:
  "NoDebug = 0
   \<and> PrimaryRayIntersectionDepth = 2 \<and> PrimaryRayIntersectionNormals = 4
   \<and> AllEmissiveSamples = 8 \<and> VisibleEmissiveSamples = 16
   \<and> OccludedEmissiveSamples = 32 \<and> Throughput = 64
   \<and> Accumulator = 128 \<and> FrameBuffer = 256
   \<and> namedFlags = map (\<lambda>k. 2 ^ k) [1, 2, 3, 4, 5, 6, 7, 8]
   \<and> distinct namedFlags \<and> disjointMasks namedFlags
   \<and> map (hasFlag d) namedFlags = map (bit d) [1, 2, 3, 4, 5, 6, 7, 8]"
proof -
  have vals: "NoDebug = 0" "PrimaryRayIntersectionDepth = 2"
    "PrimaryRayIntersectionNormals = 4" "AllEmissiveSamples = 8"
    "VisibleEmissiveSamples = 16" "OccludedEmissiveSamples = 32" "Throughput = 64"
    "Accumulator = 128" "FrameBuffer = 256"
    by (simp_all add: NoDebug_def PrimaryRayIntersectionDepth_def
        PrimaryRayIntersectionNormals_def AllEmissiveSamples_def VisibleEmissiveSamples_def
        OccludedEmissiveSamples_def Throughput_def Accumulator_def FrameBuffer_def)
  have test: "(d AND 2 ^ k = 2 ^ k) = bit d k" if "k < 16" for k
  proof
    assume "d AND 2 ^ k = 2 ^ k"
    then have "bit (d AND 2 ^ k) k = bit ((2::16 word) ^ k) k" by simp
    with that show "bit d k" by (simp add: bit_and_iff bit_exp_iff)
  next
    assume "bit d k"
    then show "d AND 2 ^ k = 2 ^ k"
      by (intro bit_eqI) (auto simp add: bit_and_iff bit_exp_iff)
  qed
  have masks: "map (hasFlag d) namedFlags = map (bit d) [1, 2, 3, 4, 5, 6, 7, 8]"
    using test [of 1] test [of 2] test [of 3] test [of 4] test [of 5] test [of 6]
      test [of 7] test [of 8]
    by (simp add: namedFlags_def vals hasFlag_def)
  show ?thesis
    using masks by (simp add: vals namedFlags_def)
qed

text \<open>
  C10. For a counter index in range, \<^verbatim>\<open>readCounter\<close> returns what the output slot holds after
  \<^verbatim>\<open>ReadData\<close>, whatever error \<^verbatim>\<open>ReadData\<close> returned; a \<^verbatim>\<open>ReadData\<close> whose error is replaced by
  \<^verbatim>\<open>nil\<close> gives the same result, so the caller cannot tell a failed read-back from a counter
  value read with success.
\<close>

theorem readCounter_drops_error:
  "(unat counterIndex < length RayCounters
      \<and> ReadData (RayCounters ! unat counterIndex) 0 0 4 0 w = ((e, v), w') \<longrightarrow>
    readCounter ReadData RayCounters counterIndex w = Some (v, w'))
   \<and> readCounter (\<lambda>b i j n out0 w. case ReadData b i j n out0 w of
                                      ((e, v), w') \<Rightarrow> ((None, v), w'))
        RayCounters counterIndex w
     = readCounter ReadData RayCounters counterIndex w"
  by (auto simp: readCounter_def split: prod.splits)

theorem readCounter_drops_error_witness:
  "unat (0 :: 32 word) < length [()]
   \<and> failingRead ([()] ! unat (0 :: 32 word)) 0 0 4 0 7 = ((Some ''read failed'', 0), 8)
   \<and> readCounter failingRead [()] 0 7 = Some (0, 8)
   \<and> readCounter zeroRead [()] 0 7 = Some (0, 8)"
proof -
  have 1: "unat (0 :: 32 word) < length [()]" by simp
  have 2: "failingRead ([()] ! unat (0 :: 32 word)) 0 0 4 0 7 = ((Some ''read failed'', 0), 8)"
    by (simp add: failingRead_def)
  have 3: "readCounter zeroRead [()] 0 7 = Some (0, 8)"
    by (simp add: readCounter_def zeroRead_def)
  from readCounter_drops_error [of 0 "[()]" failingRead 7 "Some ''read failed''" 0 8] 1 2 3
  show ?thesis by simp
qed

end
